theory Spec2Isabelle
  imports Complex_Main "HOL-Library.AList"
begin

section \<open>RateLimitedQueue (src/Utils/rate-limiter.ts)\<close>

text \<open>
  The queue is a class with mutable fields and one asynchronous drain loop
  (\<open>_process\<close>). The model is a state record and a step function over the events
  of the JavaScript run time: time passing, a call of \<open>enqueue\<close> or \<open>clear\<close>,
  the continuation of the drain loop being resumed (a \<open>_sleep\<close> timer firing
  or the awaited \<open>task.fn()\<close> settling), and the two reset timers firing.
  A timer never fires before its delay has elapsed; it may fire later, and timers due
  at the same instant may fire in either order, so the events are chosen by the
  environment and a timer event that is not yet due does nothing.

  Numbers of the configuration and \<open>Date.now()\<close> are natural numbers
  (milliseconds); \<open>Math.random()\<close> is a rational taken from a list the environment
  supplies. Floating-point rounding and the 32-bit limit of \<open>setTimeout\<close> are
  not modelled.
\<close>

record RateLimiterConfig =
  messagesPerMinute :: nat
  messagesPerDay :: nat
  minDelayMs :: nat
  maxDelayMs :: nat
  jitterMs :: nat
  perRecipientDelayMs :: nat
  onRateLimited :: bool
  onDailyLimitReached :: bool

definition DEFAULT_CONFIG :: RateLimiterConfig where
  "DEFAULT_CONFIG = \<lparr> messagesPerMinute = 20, messagesPerDay = 500, minDelayMs = 800,
     maxDelayMs = 3000, jitterMs = 400, perRecipientDelayMs = 2000,
     onRateLimited = False, onDailyLimitReached = False \<rparr>"

text \<open>
  A queued task. \<open>fn\<close> is the operation; what the model keeps of it is the way its
  promise settles (\<open>Inl err\<close>: rejects with \<open>err\<close>, \<open>Inr v\<close>: resolves with
  \<open>v\<close>). \<open>handle\<close> names the pair \<open>resolve\<close>/\<open>reject\<close> of the promise that
  \<open>enqueue\<close> returned.
\<close>

record QueuedTask =
  jid :: string
  fn :: "string + string"
  handle :: nat
  enqueuedAt :: nat

datatype qerror = QueueCleared | OpFailed string

text \<open>
  Where the drain loop is suspended. \<open>Idle\<close>: no loop is running.
  \<open>SleepBudget w\<close>: in \<open>_waitUntilMidnight\<close> or \<open>_sleep(_nextMinuteMs())\<close>
  until time \<open>w\<close>. \<open>SleepRecipient t w\<close>: task \<open>t\<close> has been shifted off the
  queue and waits for the per-recipient spacing. \<open>SleepDelay t w\<close>: \<open>t\<close> waits for
  the random delay. \<open>AwaitFn t d\<close>: \<open>t.fn()\<close> was called at time \<open>d\<close> and has
  not settled yet.
\<close>

datatype pc =
    Idle
  | SleepBudget nat
  | SleepRecipient QueuedTask nat
  | SleepDelay QueuedTask nat
  | AwaitFn QueuedTask nat

text \<open>
  What an observer sees, in order. \<open>Dispatched h j t\<close>: the operation of the task
  with handle \<open>h\<close> for recipient \<open>j\<close> was invoked at time \<open>t\<close>.
  \<open>Resolved h j t v\<close>: the handle \<open>h\<close> of that task (recipient \<open>j\<close>,
  dispatched at \<open>t\<close>) was resolved with \<open>v\<close>. \<open>Rejected h e\<close>: the handle was
  rejected with \<open>e\<close>.
\<close>

datatype obs =
    Dispatched nat string nat
  | Resolved nat string nat string
  | Rejected nat qerror
  | MinuteReset
  | DayReset
  | RateLimitedCb string nat
  | DailyLimitCb string

record qstate =
  config :: RateLimiterConfig
  queue :: "QueuedTask list"
  processing :: bool
  sentThisMinute :: nat
  sentToday :: nat
  lastSentAt :: "string \<rightharpoonup> nat"
  now :: nat
  pc :: pc
  minuteResetDue :: nat
  dayResetDue :: nat
  rands :: "rat list"
  nextHandle :: nat
  trace :: "obs list"

definition nextMinuteMs :: "nat \<Rightarrow> nat" where
  "nextMinuteMs t = 60000 - (t mod 60000)"

text \<open>\<open>_waitUntilMidnight\<close>: the milliseconds to the next local midnight; local time is taken
  to be UTC.\<close>

definition waitUntilMidnight :: "nat \<Rightarrow> nat" where
  "waitUntilMidnight t = 86400000 - (t mod 86400000)"

text \<open>The constructor, called at time \<open>t0\<close>: both counters at 0, both reset timers set.\<close>

definition new_queue :: "RateLimiterConfig \<Rightarrow> nat \<Rightarrow> rat list \<Rightarrow> qstate" where
  "new_queue cfg t0 rs = \<lparr> config = cfg, queue = [], processing = False,
     sentThisMinute = 0, sentToday = 0, lastSentAt = Map.empty, now = t0, pc = Idle,
     minuteResetDue = t0 + nextMinuteMs t0, dayResetDue = t0 + waitUntilMidnight t0,
     rands = rs, nextHandle = 0, trace = [] \<rparr>"

text \<open>
  \<open>_randomDelay\<close>: two calls of \<open>Math.random()\<close>, then
  \<open>Math.max(100, Math.round(base + jitter))\<close>. \<open>Math.round\<close> rounds halves up,
  as \<open>round\<close> does. A missing random number is taken as 0.
\<close>

definition next_rand :: "rat list \<Rightarrow> rat \<times> rat list" where
  "next_rand rs = (case rs of [] \<Rightarrow> (0, []) | r # rest \<Rightarrow> (r, rest))"

definition randomDelay :: "RateLimiterConfig \<Rightarrow> rat list \<Rightarrow> nat \<times> rat list" where
  "randomDelay cfg rs =
     (let (r1, rs1) = next_rand rs;
          base = of_nat (minDelayMs cfg) + r1 * (of_nat (maxDelayMs cfg) - of_nat (minDelayMs cfg));
          (r2, rs2) = next_rand rs1;
          jitter = (r2 - 1 / 2) * of_nat (jitterMs cfg)
      in (nat (max 100 (round (base + jitter))), rs2))"

text \<open>Lines 124 to 126: draw the delay and sleep for it.\<close>

definition start_delay :: "QueuedTask \<Rightarrow> qstate \<Rightarrow> qstate" where
  "start_delay t s =
     (let (d, rs) = randomDelay (config s) (rands s)
      in s\<lparr> pc := SleepDelay t (now s + d), rands := rs \<rparr>)"

text \<open>
  The head of the \<open>while\<close> loop of \<open>_process\<close>, run until the next \<open>await\<close>.
  \<open>if (lastSent)\<close> is a truthiness test: a stored timestamp 0 counts as absent.
  \<open>elapsed\<close> is computed over the integers, as the source's subtraction is.
\<close>

definition process_loop :: "qstate \<Rightarrow> qstate" where
  "process_loop s =
     (case queue s of
        [] \<Rightarrow> s\<lparr> processing := False, pc := Idle \<rparr>
      | t # rest \<Rightarrow>
          if sentToday s \<ge> messagesPerDay (config s) then
            s\<lparr> pc := SleepBudget (now s + waitUntilMidnight (now s)),
               trace := trace s @ (if onDailyLimitReached (config s) then [DailyLimitCb (jid t)] else []) \<rparr>
          else if sentThisMinute s \<ge> messagesPerMinute (config s) then
            s\<lparr> pc := SleepBudget (now s + nextMinuteMs (now s)) \<rparr>
          else
            (let s1 = s\<lparr> queue := rest \<rparr>;
                 required = int (perRecipientDelayMs (config s))
             in case lastSentAt s (jid t) of
                  None \<Rightarrow> start_delay t s1
                | Some lastSent \<Rightarrow>
                    if lastSent \<noteq> 0 \<and> int (now s) - int lastSent < required
                    then s1\<lparr> pc := SleepRecipient t
                                 (now s + nat (required - (int (now s) - int lastSent))) \<rparr>
                    else start_delay t s1))"

text \<open>\<open>_process\<close>: returns at once when a loop is running, else starts one.\<close>

definition process :: "qstate \<Rightarrow> qstate" where
  "process s = (if processing s then s else process_loop (s\<lparr> processing := True \<rparr>))"

definition enqueue :: "string \<Rightarrow> string + string \<Rightarrow> qstate \<Rightarrow> qstate" where
  "enqueue j f s =
     (let t = \<lparr> jid = j, fn = f, handle = nextHandle s, enqueuedAt = now s \<rparr>;
          q = queue s @ [t];
          s1 = s\<lparr> queue := q, nextHandle := Suc (nextHandle s),
                  trace := trace s @ (if onRateLimited (config s) then [RateLimitedCb j (length q)] else []) \<rparr>
      in if \<not> processing s1 then process s1 else s1)"

definition queueDepth :: "qstate \<Rightarrow> nat" where
  "queueDepth s = length (queue s)"

definition clear :: "qstate \<Rightarrow> qstate" where
  "clear s = s\<lparr> trace := trace s @ map (\<lambda>t. Rejected (handle t) QueueCleared) (queue s),
                queue := [] \<rparr>"

text \<open>
  Lines 128 to 137, after \<open>task.fn()\<close> has settled: the \<open>try\<close> branch on success,
  the \<open>catch\<close> branch on failure, then back to the head of the loop.
\<close>

definition settle :: "QueuedTask \<Rightarrow> nat \<Rightarrow> qstate \<Rightarrow> qstate" where
  "settle t d s =
     (case fn t of
        Inr v \<Rightarrow>
          process_loop (s\<lparr> lastSentAt := (lastSentAt s)(jid t \<mapsto> now s),
                          sentThisMinute := sentThisMinute s + 1,
                          sentToday := sentToday s + 1,
                          trace := trace s @ [Resolved (handle t) (jid t) d v] \<rparr>)
      | Inl e \<Rightarrow>
          process_loop (s\<lparr> trace := trace s @ [Rejected (handle t) (OpFailed e)] \<rparr>))"

text \<open>The continuation of the drain loop is resumed.\<close>

definition resume :: "qstate \<Rightarrow> qstate" where
  "resume s =
     (case pc s of
        Idle \<Rightarrow> s
      | SleepBudget w \<Rightarrow> if w \<le> now s then process_loop s else s
      | SleepRecipient t w \<Rightarrow> if w \<le> now s then start_delay t s else s
      | SleepDelay t w \<Rightarrow>
          if w \<le> now s
          then s\<lparr> pc := AwaitFn t (now s), trace := trace s @ [Dispatched (handle t) (jid t) (now s)] \<rparr>
          else s
      | AwaitFn t d \<Rightarrow> settle t d s)"

text \<open>
  \<open>_startMinuteReset\<close> and \<open>_startDayReset\<close>: a timer to the next boundary, then
  an interval of one minute (one day).
\<close>

definition minuteTimer :: "qstate \<Rightarrow> qstate" where
  "minuteTimer s =
     (if minuteResetDue s \<le> now s
      then s\<lparr> sentThisMinute := 0, minuteResetDue := now s + 60000, trace := trace s @ [MinuteReset] \<rparr>
      else s)"

definition dayTimer :: "qstate \<Rightarrow> qstate" where
  "dayTimer s =
     (if dayResetDue s \<le> now s
      then s\<lparr> sentToday := 0, dayResetDue := now s + 86400000, trace := trace s @ [DayReset] \<rparr>
      else s)"

datatype event =
    Advance nat
  | Enqueue string "string + string"
  | Clear
  | Resume
  | MinuteTimer
  | DayTimer

fun step :: "qstate \<Rightarrow> event \<Rightarrow> qstate" where
  "step s (Advance d) = s\<lparr> now := now s + d \<rparr>"
| "step s (Enqueue j f) = enqueue j f s"
| "step s Clear = clear s"
| "step s Resume = resume s"
| "step s MinuteTimer = minuteTimer s"
| "step s DayTimer = dayTimer s"

definition run :: "qstate \<Rightarrow> event list \<Rightarrow> qstate" where
  "run s evs = foldl step s evs"

subsection \<open>Predicates on the queue's observations\<close>

text \<open>
  \<open>spaced R l\<close>: in the observations \<open>l\<close>, every operation invoked for a recipient
  after a task for the same recipient was resolved is invoked at least \<open>R\<close>
  milliseconds after that task's own invocation.
\<close>

fun spaced :: "nat \<Rightarrow> obs list \<Rightarrow> bool" where
  "spaced R [] = True"
| "spaced R (Resolved h j t1 v # l) =
     ((\<forall>h' t2. Dispatched h' j t2 \<in> set l \<longrightarrow> t1 + R \<le> t2) \<and> spaced R l)"
| "spaced R (x # l) = spaced R l"

definition after_resolved :: "nat \<Rightarrow> obs list \<Rightarrow> string \<Rightarrow> nat \<Rightarrow> bool" where
  "after_resolved R l j w = (\<forall>h t1 v. Resolved h j t1 v \<in> set l \<longrightarrow> t1 + R \<le> w)"

fun quiet :: "obs \<Rightarrow> bool" where
  "quiet (Dispatched h j t) = False"
| "quiet (Resolved h j t v) = False"
| "quiet x = True"

fun pc_ok :: "nat \<Rightarrow> obs list \<Rightarrow> nat \<Rightarrow> pc \<Rightarrow> bool" where
  "pc_ok R l n Idle = True"
| "pc_ok R l n (SleepBudget w) = True"
| "pc_ok R l n (SleepRecipient b w) = after_resolved R l (jid b) w"
| "pc_ok R l n (SleepDelay b w) = (0 < w \<and> after_resolved R l (jid b) w)"
| "pc_ok R l n (AwaitFn b d) = (0 < d \<and> d \<le> n \<and> Dispatched (handle b) (jid b) d \<in> set l)"

definition last_ok :: "qstate \<Rightarrow> bool" where
  "last_ok s = (\<forall>h j t1 v. Resolved h j t1 v \<in> set (trace s) \<longrightarrow>
      0 < t1 \<and> t1 \<le> now s \<and> Dispatched h j t1 \<in> set (trace s) \<and>
      (\<exists>ts. lastSentAt s j = Some ts \<and> t1 \<le> ts))"

definition loop_inv :: "qstate \<Rightarrow> bool" where
  "loop_inv s = (last_ok s \<and> spaced (perRecipientDelayMs (config s)) (trace s))"

definition spacing_inv :: "qstate \<Rightarrow> bool" where
  "spacing_inv s = (loop_inv s \<and> pc_ok (perRecipientDelayMs (config s)) (trace s) (now s) (pc s))"

text \<open>
  The number of operations invoked since the per-minute counter was last reset (since
  the start, when it never was).
\<close>

fun count_step :: "nat \<Rightarrow> obs \<Rightarrow> nat" where
  "count_step n MinuteReset = 0"
| "count_step n (Dispatched h j t) = Suc n"
| "count_step n x = n"

definition dispatched_since_reset :: "obs list \<Rightarrow> nat" where
  "dispatched_since_reset l = foldl count_step 0 l"

text \<open>An event of a run in which every enqueued operation resolves.\<close>

fun resolves :: "event \<Rightarrow> bool" where
  "resolves (Enqueue j (Inl e)) = False"
| "resolves e = True"

fun succeeds :: "QueuedTask \<Rightarrow> bool" where
  "succeeds t = (case fn t of Inr v \<Rightarrow> True | Inl e \<Rightarrow> False)"

fun pc_budget :: "nat \<Rightarrow> nat \<Rightarrow> nat \<Rightarrow> pc \<Rightarrow> bool" where
  "pc_budget M c n Idle = (n \<le> c)"
| "pc_budget M c n (SleepBudget w) = (n \<le> c)"
| "pc_budget M c n (SleepRecipient t w) = (c < M \<and> n \<le> c \<and> succeeds t)"
| "pc_budget M c n (SleepDelay t w) = (c < M \<and> n \<le> c \<and> succeeds t)"
| "pc_budget M c n (AwaitFn t d) = (c < M \<and> n \<le> Suc c \<and> succeeds t)"

definition queue_ok :: "qstate \<Rightarrow> bool" where
  "queue_ok s = (sentThisMinute s \<le> messagesPerMinute (config s) \<and> (\<forall>t\<in>set (queue s). succeeds t))"

definition budget_inv :: "qstate \<Rightarrow> bool" where
  "budget_inv s = (queue_ok s \<and> (processing s \<longleftrightarrow> pc s \<noteq> Idle) \<and>
     pc_budget (messagesPerMinute (config s)) (sentThisMinute s)
       (dispatched_since_reset (trace s)) (pc s))"

text \<open>The invocation times in the observations, and how many fall in the 60 seconds from \<open>a\<close>.\<close>

fun dispatch_times :: "obs list \<Rightarrow> nat list" where
  "dispatch_times [] = []"
| "dispatch_times (Dispatched h j t # l) = t # dispatch_times l"
| "dispatch_times (x # l) = dispatch_times l"

definition in_window :: "nat \<Rightarrow> nat \<Rightarrow> bool" where
  "in_window a t = (a \<le> t \<and> t < a + 60000)"

definition rolling_count :: "nat \<Rightarrow> obs list \<Rightarrow> nat" where
  "rolling_count a l = length (filter (in_window a) (dispatch_times l))"

subsection \<open>Concrete runs of the queue\<close>

text \<open>
  The default configuration with \<open>messagesPerMinute = 2\<close>, a queue constructed at
  time 57000 (three seconds before a minute boundary), every \<open>Math.random()\<close>
  returning one half, so that every random delay is 1900 ms.
\<close>

definition cfg2 :: RateLimiterConfig where
  "cfg2 = DEFAULT_CONFIG\<lparr> messagesPerMinute := 2 \<rparr>"

definition halves :: "rat list" where
  "halves = [1/2, 1/2, 1/2, 1/2, 1/2, 1/2, 1/2, 1/2, 1/2, 1/2]"

definition five_tasks :: "event list" where
  "five_tasks = [Enqueue ''a'' (Inr ''1''), Enqueue ''b'' (Inr ''2''), Enqueue ''c'' (Inr ''3''),
     Enqueue ''d'' (Inr ''4''), Enqueue ''e'' (Inr ''5'')]"

text \<open>
  Five instantly resolving tasks are enqueued at 57000. Every timer fires exactly when
  it is due: the first operation is invoked at 58900, the minute counter is reset at
  60000 while the second task sleeps, the second operation is invoked at 60800 and the
  third at 62700.
\<close>

definition straddle :: "event list" where
  "straddle = five_tasks @ [Advance 1900, Resume, Resume, Advance 1100, MinuteTimer,
     Advance 800, Resume, Resume, Advance 1900, Resume, Resume]"

text \<open>The first of five tasks is in flight, four are queued.\<close>

definition one_in_flight :: qstate where
  "one_in_flight = run (new_queue cfg2 57000 halves) (five_tasks @ [Advance 1900, Resume])"

text \<open>Two tasks for the same recipient, enqueued back to back; then the timers fire when due.\<close>

definition same_recipient :: "event list" where
  "same_recipient = [Enqueue ''a'' (Inr ''1''), Enqueue ''a'' (Inr ''2''), Advance 1900, Resume,
     Resume, Advance 2000, Resume, Advance 1900, Resume]"

text \<open>A task whose operation rejects is in flight, another one is queued.\<close>

definition failing_in_flight :: qstate where
  "failing_in_flight = run (new_queue cfg2 57000 halves)
     [Enqueue ''a'' (Inl ''boom''), Enqueue ''b'' (Inr ''2''), Advance 1900, Resume]"

text \<open>
  One task in flight at a time, read off the observations: \<open>Free\<close> when no
  operation is running, \<open>Busy h j t\<close> while the operation invoked at \<open>t\<close> for
  handle \<open>h\<close> and recipient \<open>j\<close> has not settled, \<open>Broken\<close> once an operation
  was invoked while another was running or a handle was settled that was not in flight.
\<close>

datatype flight = Free | Busy nat string nat | Broken

fun fly :: "flight \<Rightarrow> obs \<Rightarrow> flight" where
  "fly Broken x = Broken"
| "fly Free (Dispatched h j t) = Busy h j t"
| "fly (Busy h j t) (Dispatched h' j' t') = Broken"
| "fly (Busy h j t) (Resolved h' j' t' v) = (if h' = h \<and> j' = j \<and> t' = t then Free else Broken)"
| "fly Free (Resolved h' j' t' v) = Broken"
| "fly (Busy h j t) (Rejected h' (OpFailed e)) = (if h' = h then Free else Broken)"
| "fly Free (Rejected h' (OpFailed e)) = Broken"
| "fly f x = f"

fun pc_flight :: "pc \<Rightarrow> flight" where
  "pc_flight (AwaitFn b d) = Busy (handle b) (jid b) d"
| "pc_flight p = Free"

definition flight_inv :: "qstate \<Rightarrow> bool" where
  "flight_inv s = (foldl fly Free (trace s) = pc_flight (pc s) \<and> (processing s \<longleftrightarrow> pc s \<noteq> Idle))"

text \<open>
  Wall-clock minutes. \<open>minute_count k l\<close> is the number of operations invoked in the
  minute \<open>[60000 * k, 60000 * (k + 1))\<close>. A run is \<open>punctual\<close> when the timer that
  resets the per-minute counter fires exactly when it is due and before anything else
  that happens at that instant, as on a simulated clock: time does not pass beyond a due
  reset, and the drain loop is not resumed while a reset is due.
\<close>

definition minute_count :: "nat \<Rightarrow> obs list \<Rightarrow> nat" where
  "minute_count k l = length (filter (\<lambda>t. t div 60000 = k) (dispatch_times l))"

fun on_time :: "qstate \<Rightarrow> event \<Rightarrow> bool" where
  "on_time s (Advance d) = (now s + d \<le> minuteResetDue s)"
| "on_time s Resume = (now s < minuteResetDue s)"
| "on_time s e = True"

fun punctual :: "qstate \<Rightarrow> event list \<Rightarrow> bool" where
  "punctual s [] = True"
| "punctual s (e # evs) = (on_time s e \<and> punctual (step s e) evs)"

definition clock_view :: "qstate \<Rightarrow> nat \<times> nat \<times> nat list \<times> nat" where
  "clock_view s = (now s, minuteResetDue s, dispatch_times (trace s),
     dispatched_since_reset (trace s))"

definition window_ok :: "nat \<Rightarrow> nat \<times> nat \<times> nat list \<times> nat \<Rightarrow> bool" where
  "window_ok M v =
     (case v of (t, rdue, ds, n) \<Rightarrow>
        60000 dvd rdue
        \<and> t \<le> rdue \<and> rdue \<le> t + 60000
        \<and> (\<forall>x\<in>set ds. x < rdue)
        \<and> length (filter (\<lambda>x. rdue \<le> x + 60000) ds) \<le> n
        \<and> (\<forall>k. 60000 * (k + 1) < rdue \<longrightarrow> length (filter (\<lambda>x. x div 60000 = k) ds) \<le> M))"

definition window_inv :: "nat \<Rightarrow> qstate \<Rightarrow> bool" where
  "window_inv M s = window_ok M (clock_view s)"

text \<open>The five tasks are enqueued; the first has been shifted off the queue and waits for its delay.\<close>

definition head_sleeping :: qstate where
  "head_sleeping = run (new_queue cfg2 57000 halves) five_tasks"

text \<open>
  Two tasks enqueued at 59000 and invoked at 60900 and 62800; the reset that was due at
  60000 fires only at 62800, and a third task enqueued then is invoked at 64700.
\<close>

definition late_reset :: "event list" where
  "late_reset = [Enqueue ''a'' (Inr ''1''), Enqueue ''b'' (Inr ''2''),
     Advance 1900, Resume, Resume, Advance 1900, Resume, Resume,
     MinuteTimer, Enqueue ''c'' (Inr ''3''), Advance 1900, Resume]"

section \<open>SessionManager (src/Utils/session-manager.ts)\<close>

text \<open>
  The manager keeps a map of sessions, each holding a reference to one mutable
  \<open>SessionInfo\<close> object that the socket's event handler closes over and mutates in
  place. Since two of the claims are about who shares that object, the model has an
  explicit store: \<open>heap\<close> maps a reference to the object's current value, and the
  manager, the handlers and the callers of \<open>getInfo\<close> hold references.

  The transport (\<open>makeWASocket\<close>) and the clock are the environment's: its events are
  a connection update arriving on a socket, time passing, and a timer firing (never
  before it is due). \<open>useMultiFileAuthState\<close> succeeds unless the id is listed in
  \<open>authBroken\<close>. The comparison of the close code with \<open>DisconnectReason.loggedOut\<close>
  arrives already made, as the flag \<open>loggedOut\<close> of the update.
\<close>

datatype SessionStatus = Initializing | QrReady | Connected | Disconnected | LoggedOut

record SessionInfo =
  sid :: string
  status :: SessionStatus
  qr :: "string option"
  phoneNumber :: "string option"
  name :: "string option"
  connectedAt :: "nat option"
  error :: "string option"

record SessionManagerConfig =
  authDir :: string
  autoReconnect :: bool
  maxReconnectAttempts :: nat
  reconnectDelayMs :: nat

definition default_manager_config :: SessionManagerConfig where
  "default_manager_config = \<lparr> authDir = ''./sessions'', autoReconnect = True,
     maxReconnectAttempts = 5, reconnectDelayMs = 3000 \<rparr>"

record ActiveSession =
  info :: nat
  sock :: nat

text \<open>A socket made by \<open>_boot\<close>: the id and the info object its handlers close over.\<close>

record Sock =
  sock_session :: string
  sock_info :: nat
  ws_closed :: bool

datatype SMError =
    SessionExists string
  | SessionNotFound string
  | DidNotConnect string nat
  | WasLoggedOut string
  | AuthLoadFailed string

datatype TimerAction = Reboot string | WaitTimeout nat

record Timer =
  due :: rat
  delay_ms :: rat
  action :: TimerAction

text \<open>
  One pending call of \<open>waitForConnected\<close>: whether its two listeners are registered,
  its timer if pending, and how its promise settled (\<open>ResolvedWith r\<close>: with the
  reference \<open>getInfo\<close> returned).
\<close>

datatype Settled = ResolvedWith "nat option" | RejectedWith SMError

record Waiter =
  w_session :: string
  w_timeoutMs :: nat
  onConnected :: bool
  onStatus :: bool
  w_timer :: "nat option"
  w_settled :: "Settled option"

datatype SessionEvent =
    session_status SessionInfo
  | session_qr string string
  | session_connected string string
  | session_disconnected string string
  | session_destroyed string

datatype Connection = conn_open | conn_close | conn_connecting

record LastDisconnect =
  loggedOut :: bool
  message :: "string option"

text \<open>
  A \<open>connection.update\<close> event, with the socket's \<open>user\<close> at that moment
  (\<open>user_id\<close>, \<open>user_name\<close>).
\<close>

record ConnectionUpdate =
  connection :: "Connection option"
  lastDisconnect :: "LastDisconnect option"
  qr_payload :: "string option"
  user_id :: "string option"
  user_name :: "string option"

record mstate =
  sm_config :: SessionManagerConfig
  sessions :: "(string \<times> ActiveSession) list"
  reconnectAttempts :: "string \<rightharpoonup> nat"
  heap :: "nat \<Rightarrow> SessionInfo"
  nextRef :: nat
  socks :: "nat \<rightharpoonup> Sock"
  nextSock :: nat
  timers :: "(nat \<times> Timer) list"
  nextTimer :: nat
  waiters :: "Waiter list"
  clock :: nat
  emitted :: "SessionEvent list"
  boots :: "string list"
  authBroken :: "string list"

definition new_info :: "string \<Rightarrow> SessionInfo" where
  "new_info i = \<lparr> sid = i, status = Initializing, qr = None, phoneNumber = None,
     name = None, connectedAt = None, error = None \<rparr>"

definition new_manager :: "SessionManagerConfig \<Rightarrow> nat \<Rightarrow> mstate" where
  "new_manager cfg t0 = \<lparr> sm_config = cfg, sessions = [], reconnectAttempts = Map.empty,
     heap = (\<lambda>r. new_info []), nextRef = 0, socks = Map.empty, nextSock = 0, timers = [],
     nextTimer = 0, waiters = [], clock = t0, emitted = [], boots = [], authBroken = [] \<rparr>"

definition getInfo :: "string \<Rightarrow> mstate \<Rightarrow> nat option" where
  "getInfo i s = map_option info (map_of (sessions s) i)"

definition listSessions :: "mstate \<Rightarrow> nat list" where
  "listSessions s = map (\<lambda>(i, a). info a) (sessions s)"

definition hasSession :: "string \<Rightarrow> mstate \<Rightarrow> bool" where
  "hasSession i s = (map_of (sessions s) i \<noteq> None)"

text \<open>\<open>cleanup()\<close> and the settling of a waiter's promise; its timer is gone.\<close>

definition settled :: "Settled \<Rightarrow> Waiter \<Rightarrow> Waiter" where
  "settled out w = w\<lparr> onConnected := False, onStatus := False, w_timer := None,
     w_settled := Some out \<rparr>"

definition clear_timers :: "(Waiter \<Rightarrow> bool) \<Rightarrow> mstate \<Rightarrow> (nat \<times> Timer) list" where
  "clear_timers hit s =
     filter (\<lambda>(tid, t). \<not> list_ex (\<lambda>w. hit w \<and> w_timer w = Some tid) (waiters s)) (timers s)"

text \<open>
  \<open>emit('session.status', copy)\<close>: the listeners \<open>onStatus\<close> of the pending waiters
  run; one whose session was logged out clears its timer, removes both listeners and
  rejects.
\<close>

definition emit_status :: "SessionInfo \<Rightarrow> mstate \<Rightarrow> mstate" where
  "emit_status v s =
     (let hit = (\<lambda>w. onStatus w \<and> sid v = w_session w \<and> status v = LoggedOut)
      in s\<lparr> waiters := map (\<lambda>w. if hit w then settled (RejectedWith (WasLoggedOut (w_session w))) w
                                 else w) (waiters s),
             timers := clear_timers hit s,
             emitted := emitted s @ [session_status v] \<rparr>)"

text \<open>
  \<open>emit('session.connected', id, phone)\<close>: the listeners \<open>onConnected\<close> of the
  waiters for that id clear their timer, remove both listeners and resolve with
  \<open>getInfo(id)\<close>.
\<close>

definition emit_connected :: "string \<Rightarrow> string \<Rightarrow> mstate \<Rightarrow> mstate" where
  "emit_connected i phone s =
     (let hit = (\<lambda>w. onConnected w \<and> i = w_session w)
      in s\<lparr> waiters := map (\<lambda>w. if hit w then settled (ResolvedWith (getInfo i s)) w else w)
                           (waiters s),
             timers := clear_timers hit s,
             emitted := emitted s @ [session_connected i phone] \<rparr>)"

text \<open>\<open>_updateStatus\<close>: point the session at the info object, emit a copy of it.\<close>

definition updateStatus :: "string \<Rightarrow> nat \<Rightarrow> mstate \<Rightarrow> mstate" where
  "updateStatus i r s =
     (let s1 = (case map_of (sessions s) i of
                  None \<Rightarrow> s
                | Some a \<Rightarrow> s\<lparr> sessions := AList.update i (a\<lparr> info := r \<rparr>) (sessions s) \<rparr>)
      in emit_status (heap s1 r) s1)"

text \<open>
  \<open>_boot\<close>: a new socket whose handlers close over the session's existing info
  object, or over a fresh one when the id is not registered.
\<close>

definition boot :: "string \<Rightarrow> mstate \<Rightarrow> SMError + mstate" where
  "boot i s =
     (if i \<in> set (authBroken s) then Inl (AuthLoadFailed i)
      else
        (let k = nextSock s;
             (r, s1) = (case map_of (sessions s) i of
                          Some a \<Rightarrow> (info a, s)
                        | None \<Rightarrow> (nextRef s, s\<lparr> heap := (heap s)(nextRef s := new_info i),
                                                 nextRef := Suc (nextRef s) \<rparr>))
         in Inr (s1\<lparr> sessions := AList.update i \<lparr> info = r, sock = k \<rparr> (sessions s1),
                      socks := (socks s1)(k \<mapsto> \<lparr> sock_session = i, sock_info = r, ws_closed = False \<rparr>),
                      nextSock := Suc k,
                      boots := boots s1 @ [i] \<rparr>)))"

text \<open>
  \<open>createSession\<close>. The snapshot it returns is \<open>getInfo\<close> of the resulting
  state. When the credentials cannot be loaded the call fails, and the model drops the
  status event emitted before \<open>_boot\<close>.
\<close>

definition createSession :: "string \<Rightarrow> mstate \<Rightarrow> SMError + mstate" where
  "createSession i s =
     (if hasSession i s then Inl (SessionExists i)
      else
        (let r0 = nextRef s;
             s1 = s\<lparr> heap := (heap s)(r0 := new_info i), nextRef := Suc r0 \<rparr>
         in boot i (updateStatus i r0 s1)))"

definition close_ws :: "nat \<Rightarrow> (nat \<rightharpoonup> Sock) \<Rightarrow> (nat \<rightharpoonup> Sock)" where
  "close_ws k m = (case m k of None \<Rightarrow> m | Some x \<Rightarrow> m(k \<mapsto> x\<lparr> ws_closed := True \<rparr>))"

definition destroySession :: "string \<Rightarrow> mstate \<Rightarrow> SMError + mstate" where
  "destroySession i s =
     (case map_of (sessions s) i of
        None \<Rightarrow> Inl (SessionNotFound i)
      | Some a \<Rightarrow>
          Inr (s\<lparr> socks := close_ws (sock a) (socks s),
                  sessions := AList.delete i (sessions s),
                  reconnectAttempts := (reconnectAttempts s)(i := None),
                  emitted := emitted s @ [session_destroyed i] \<rparr>))"

text \<open>
  \<open>waitForConnected\<close>. The new waiter is the last of \<open>waiters\<close>. A session that is
  connected resolves at once; in every other case (also an unknown id, also a status
  \<open>logged_out\<close>) the timer and the two listeners are set up.
\<close>

definition waitForConnected :: "string \<Rightarrow> nat \<Rightarrow> mstate \<Rightarrow> mstate" where
  "waitForConnected i timeoutMs s =
     (let w0 = \<lparr> w_session = i, w_timeoutMs = timeoutMs, onConnected = False, onStatus = False,
                 w_timer = None, w_settled = None \<rparr>
      in if (case getInfo i s of Some r \<Rightarrow> status (heap s r) = Connected | None \<Rightarrow> False)
         then s\<lparr> waiters := waiters s @ [settled (ResolvedWith (getInfo i s)) w0] \<rparr>
         else s\<lparr> waiters := waiters s @ [w0\<lparr> onConnected := True, onStatus := True,
                                              w_timer := Some (nextTimer s) \<rparr>],
                 timers := timers s @ [(nextTimer s,
                     \<lparr> due = of_nat (clock s) + of_nat timeoutMs, delay_ms = of_nat timeoutMs,
                       action = WaitTimeout (length (waiters s)) \<rparr>)],
                 nextTimer := Suc (nextTimer s) \<rparr>)"

text \<open>The multiplier of the reconnect delay, the literal 1.5 of line 209.\<close>

definition backoffMultiplier :: rat where
  "backoffMultiplier = 3 / 2"

text \<open>The three \<open>if\<close> blocks of the \<open>connection.update\<close> handler of \<open>_boot\<close>.\<close>

definition on_qr :: "string \<Rightarrow> nat \<Rightarrow> string \<Rightarrow> mstate \<Rightarrow> mstate" where
  "on_qr i r q s =
     (let s1 = s\<lparr> heap := (heap s)(r := (heap s r)\<lparr> qr := Some q, status := QrReady \<rparr>) \<rparr>;
          s2 = updateStatus i r s1
      in s2\<lparr> emitted := emitted s2 @ [session_qr i q] \<rparr>)"

definition on_open :: "string \<Rightarrow> nat \<Rightarrow> ConnectionUpdate \<Rightarrow> mstate \<Rightarrow> mstate" where
  "on_open i r u s =
     (let phone = map_option (takeWhile (\<lambda>c. c \<noteq> CHR '':'')) (user_id u);
          s1 = s\<lparr> heap := (heap s)(r := (heap s r)\<lparr> qr := None, status := Connected,
                     connectedAt := Some (clock s), phoneNumber := phone, name := user_name u,
                     error := None \<rparr>),
                  reconnectAttempts := (reconnectAttempts s)(i \<mapsto> 0) \<rparr>;
          s2 = updateStatus i r s1
      in emit_connected i (case phone of None \<Rightarrow> [] | Some p \<Rightarrow> p) s2)"

text \<open>Line 188: \<open>const loggedOut = statusCode === DisconnectReason.loggedOut\<close>.\<close>

definition is_loggedOut :: "ConnectionUpdate \<Rightarrow> bool" where
  "is_loggedOut u = (case lastDisconnect u of None \<Rightarrow> False | Some d \<Rightarrow> loggedOut d)"

definition on_close :: "string \<Rightarrow> nat \<Rightarrow> ConnectionUpdate \<Rightarrow> mstate \<Rightarrow> mstate" where
  "on_close i r u s =
     (if is_loggedOut u then
        (let s1 = s\<lparr> heap := (heap s)(r := (heap s r)\<lparr> status := LoggedOut,
                        error := Some ''Logged out'' \<rparr>) \<rparr>;
             s2 = updateStatus i r s1
         in s2\<lparr> emitted := emitted s2 @ [session_disconnected i ''logged_out''] \<rparr>)
      else
        (let msg = (case lastDisconnect u of None \<Rightarrow> None | Some d \<Rightarrow> message d);
             s1 = s\<lparr> heap := (heap s)(r := (heap s r)\<lparr> status := Disconnected, error := msg \<rparr>) \<rparr>;
             s2 = updateStatus i r s1;
             s3 = s2\<lparr> emitted := emitted s2 @
                    [session_disconnected i (case msg of None \<Rightarrow> ''unknown'' | Some m \<Rightarrow> m)] \<rparr>
         in if autoReconnect (sm_config s3) \<and> hasSession i s3 then
              (let attempts = (case reconnectAttempts s3 i of None \<Rightarrow> 0 | Some n \<Rightarrow> n) + 1;
                   s4 = s3\<lparr> reconnectAttempts := (reconnectAttempts s3)(i \<mapsto> attempts) \<rparr>
               in if attempts \<le> maxReconnectAttempts (sm_config s4) then
                    (let delay = of_nat (reconnectDelayMs (sm_config s4))
                                   * backoffMultiplier ^ (attempts - 1)
                     in s4\<lparr> timers := timers s4 @ [(nextTimer s4,
                               \<lparr> due = of_nat (clock s4) + delay, delay_ms = delay,
                                 action = Reboot i \<rparr>)],
                             nextTimer := Suc (nextTimer s4) \<rparr>)
                  else s4)
            else s3))"

text \<open>
  The handler of socket \<open>k\<close>. \<open>if (qr)\<close> is a truthiness test: an empty string
  counts as absent.
\<close>

definition connection_update :: "nat \<Rightarrow> ConnectionUpdate \<Rightarrow> mstate \<Rightarrow> mstate" where
  "connection_update k u s =
     (case socks s k of
        None \<Rightarrow> s
      | Some x \<Rightarrow>
          (let i = sock_session x; r = sock_info x;
               s1 = (case qr_payload u of
                       Some q \<Rightarrow> if q \<noteq> [] then on_qr i r q s else s
                     | None \<Rightarrow> s);
               s2 = (if connection u = Some conn_open then on_open i r u s1 else s1)
           in if connection u = Some conn_close then on_close i r u s2 else s2))"

text \<open>
  A timer fires: the reconnect runs \<open>_boot\<close> (a rejection of that promise is
  dropped); the timeout of a waiter removes its listeners and rejects.
\<close>

definition fire_timer :: "nat \<Rightarrow> mstate \<Rightarrow> mstate" where
  "fire_timer tid s =
     (case map_of (timers s) tid of
        None \<Rightarrow> s
      | Some t \<Rightarrow>
          if due t \<le> of_nat (clock s) then
            (let s1 = s\<lparr> timers := filter (\<lambda>(j, x). j \<noteq> tid) (timers s) \<rparr>
             in case action t of
                  Reboot i \<Rightarrow> (case boot i s1 of Inl e \<Rightarrow> s1 | Inr s2 \<Rightarrow> s2)
                | WaitTimeout w \<Rightarrow>
                    s1\<lparr> waiters := (waiters s1)[w := settled
                           (RejectedWith (DidNotConnect (w_session (waiters s1 ! w))
                              (w_timeoutMs (waiters s1 ! w))))
                           (waiters s1 ! w)] \<rparr>)
          else s)"

definition advance :: "nat \<Rightarrow> mstate \<Rightarrow> mstate" where
  "advance d s = s\<lparr> clock := clock s + d \<rparr>"

text \<open>The calls and events of a run of the manager; a call that throws leaves the state as it is.\<close>

datatype mevent =
    CreateSession string
  | DestroySession string
  | WaitForConnected string nat
  | Update nat ConnectionUpdate
  | Fire nat
  | Tick nat

fun mstep :: "mstate \<Rightarrow> mevent \<Rightarrow> mstate" where
  "mstep s (CreateSession i) = (case createSession i s of Inl e \<Rightarrow> s | Inr s' \<Rightarrow> s')"
| "mstep s (DestroySession i) = (case destroySession i s of Inl e \<Rightarrow> s | Inr s' \<Rightarrow> s')"
| "mstep s (WaitForConnected i t) = waitForConnected i t s"
| "mstep s (Update k u) = connection_update k u s"
| "mstep s (Fire tid) = fire_timer tid s"
| "mstep s (Tick d) = advance d s"

definition mrun :: "mstate \<Rightarrow> mevent list \<Rightarrow> mstate" where
  "mrun s evs = foldl mstep s evs"

text \<open>The updates a transport sends.\<close>

definition upd_qr :: "string \<Rightarrow> ConnectionUpdate" where
  "upd_qr q = \<lparr> connection = None, lastDisconnect = None, qr_payload = Some q,
     user_id = None, user_name = None \<rparr>"

definition upd_open :: ConnectionUpdate where
  "upd_open = \<lparr> connection = Some conn_open, lastDisconnect = None, qr_payload = None,
     user_id = Some ''254700000000:12@s.whatsapp.net'', user_name = Some ''Mantra'' \<rparr>"

definition upd_close :: "string \<Rightarrow> ConnectionUpdate" where
  "upd_close m = \<lparr> connection = Some conn_close,
     lastDisconnect = Some \<lparr> loggedOut = False, message = Some m \<rparr>, qr_payload = None,
     user_id = None, user_name = None \<rparr>"

definition upd_logout :: ConnectionUpdate where
  "upd_logout = \<lparr> connection = Some conn_close,
     lastDisconnect = Some \<lparr> loggedOut = True, message = Some ''Connection Failure'' \<rparr>,
     qr_payload = None, user_id = None, user_name = None \<rparr>"

subsection \<open>The transition table of the specification, and concrete runs\<close>

text \<open>
  The table of section 4.1 of the specification, read generously: the chain
  \<open>initializing \<rightarrow> qr_ready \<rightarrow> connected \<rightarrow> disconnected \<rightarrow> initializing\<close>, a
  logout from \<open>connected\<close> or \<open>disconnected\<close>, and a failure (\<open>disconnected\<close> or
  \<open>logged_out\<close>) before \<open>connected\<close> was ever reached.
\<close>

fun spec_transition :: "SessionStatus \<Rightarrow> SessionStatus \<Rightarrow> bool" where
  "spec_transition Initializing QrReady = True"
| "spec_transition QrReady Connected = True"
| "spec_transition Connected Disconnected = True"
| "spec_transition Disconnected Initializing = True"
| "spec_transition Connected LoggedOut = True"
| "spec_transition Disconnected LoggedOut = True"
| "spec_transition Initializing Disconnected = True"
| "spec_transition Initializing LoggedOut = True"
| "spec_transition QrReady Disconnected = True"
| "spec_transition QrReady LoggedOut = True"
| "spec_transition a b = False"


text \<open>A manager with the default configuration, constructed at time 1000.\<close>

definition m0 :: mstate where
  "m0 = new_manager default_manager_config 1000"

text \<open>
  A session is created, pairs, connects and loses its connection: a reconnect timer
  (3000 ms) is pending.
\<close>

definition timer_pending :: "mevent list" where
  "timer_pending = [CreateSession ''s1'', Update 0 (upd_qr ''ABC''), Update 0 upd_open,
     Update 0 (upd_close ''Stream Errored'')]"


text \<open>The session is destroyed while its reconnect timer is pending; then the timer fires.\<close>

definition destroyed_run :: "mevent list" where
  "destroyed_run = timer_pending @ [DestroySession ''s1'']"

definition zombie_run :: "mevent list" where
  "zombie_run = timer_pending @ [DestroySession ''s1'', Tick 3000, Fire 0]"

text \<open>A session is created and logged out by the transport before it ever connects.\<close>

definition logged_out_run :: "mevent list" where
  "logged_out_run = [CreateSession ''s1'', Update 0 upd_logout]"

text \<open>A caller waits for the session that is already logged out; then its timer fires.\<close>

definition waiting_run :: "mevent list" where
  "waiting_run = logged_out_run @ [WaitForConnected ''s1'' 1000]"

definition waited_run :: "mevent list" where
  "waited_run = logged_out_run @ [WaitForConnected ''s1'' 1000, Tick 1000, Fire 0]"

text \<open>What the pending timers will do.\<close>

definition pending_actions :: "mstate \<Rightarrow> TimerAction list" where
  "pending_actions s = map (\<lambda>(tid, t). action t) (timers s)"

text \<open>The states these runs pass through, written out.\<close>

definition info_qr :: SessionInfo where
  "info_qr = \<lparr> sid = ''s1'', status = QrReady, qr = Some ''ABC'', phoneNumber = None,
     name = None, connectedAt = None, error = None \<rparr>"

definition info_connected :: SessionInfo where
  "info_connected = \<lparr> sid = ''s1'', status = Connected, qr = None,
     phoneNumber = Some ''254700000000'', name = Some ''Mantra'', connectedAt = Some 1000,
     error = None \<rparr>"

definition info_lost :: SessionInfo where
  "info_lost = \<lparr> sid = ''s1'', status = Disconnected, qr = None,
     phoneNumber = Some ''254700000000'', name = Some ''Mantra'', connectedAt = Some 1000,
     error = Some ''Stream Errored'' \<rparr>"

definition info_logged_out :: SessionInfo where
  "info_logged_out = \<lparr> sid = ''s1'', status = LoggedOut, qr = None, phoneNumber = None,
     name = None, connectedAt = None, error = Some ''Logged out'' \<rparr>"

definition sock_of_s1 :: Sock where
  "sock_of_s1 = \<lparr> sock_session = ''s1'', sock_info = 1, ws_closed = False \<rparr>"

definition st_created :: mstate where
  "st_created = \<lparr> sm_config = default_manager_config,
     sessions = [(''s1'', \<lparr>info = 1, sock = 0\<rparr>)], reconnectAttempts = Map.empty,
     heap = (\<lambda>r. new_info [])(0 := new_info ''s1'', 1 := new_info ''s1''), nextRef = 2,
     socks = [0 \<mapsto> sock_of_s1], nextSock = 1,
     timers = [], nextTimer = 0, waiters = [], clock = 1000,
     emitted = [session_status (new_info ''s1'')], boots = [''s1''], authBroken = [] \<rparr>"

definition st_qr :: mstate where
  "st_qr = st_created\<lparr> heap := (\<lambda>r. new_info [])(0 := new_info ''s1'', 1 := info_qr),
     emitted := [session_status (new_info ''s1''), session_status info_qr, session_qr ''s1'' ''ABC''] \<rparr>"

definition st_lost :: mstate where
  "st_lost = st_created\<lparr> heap := (\<lambda>r. new_info [])(0 := new_info ''s1'', 1 := info_lost),
     reconnectAttempts := [''s1'' \<mapsto> 1],
     timers := [(0, \<lparr>due = 4000, delay_ms = 3000, action = Reboot ''s1''\<rparr>)], nextTimer := 1,
     emitted := [session_status (new_info ''s1''), session_status info_qr, session_qr ''s1'' ''ABC'',
       session_status info_connected, session_connected ''s1'' ''254700000000'',
       session_status info_lost, session_disconnected ''s1'' ''Stream Errored''] \<rparr>"

definition st_rebooted :: mstate where
  "st_rebooted = st_lost\<lparr> sessions := [(''s1'', \<lparr>info = 1, sock = 1\<rparr>)],
     socks := [0 \<mapsto> sock_of_s1, 1 \<mapsto> sock_of_s1], nextSock := 2, timers := [], clock := 4000,
     boots := [''s1'', ''s1''] \<rparr>"

definition st_logged_out :: mstate where
  "st_logged_out = st_created\<lparr> heap := (\<lambda>r. new_info [])(0 := new_info ''s1'', 1 := info_logged_out),
     emitted := [session_status (new_info ''s1''), session_status info_logged_out,
       session_disconnected ''s1'' ''logged_out''] \<rparr>"

text \<open>
  The state after the re-boot, with the counter of \<open>s1\<close> at
  \<open>maxReconnectAttempts\<close>: the last attempt that is allowed has been made.
\<close>

definition st_exhausted :: mstate where
  "st_exhausted = st_rebooted\<lparr> reconnectAttempts := (reconnectAttempts st_rebooted)(''s1'' \<mapsto> 5) \<rparr>"

text \<open>
  The session is destroyed while its reconnect timer is pending and created again; the
  new socket opens, and then the old timer fires.
\<close>

definition recreated_run :: "mevent list" where
  "recreated_run = timer_pending @ [DestroySession ''s1'', CreateSession ''s1'', Update 1 upd_open,
     Tick 3000, Fire 0]"

subsection \<open>The transitions of the code, and what a transport sends\<close>

text \<open>
  The status changes the code makes on the updates a transport sends. A reconnect leaves
  the status \<open>disconnected\<close>: there is no way back to \<open>initializing\<close>, and the new
  socket takes the session from \<open>disconnected\<close> to \<open>qr_ready\<close> or \<open>connected\<close>. A
  session with saved credentials goes from \<open>initializing\<close> to \<open>connected\<close> without a
  QR code. Nothing leaves \<open>logged_out\<close>.
\<close>

fun code_transition :: "SessionStatus \<Rightarrow> SessionStatus \<Rightarrow> bool" where
  "code_transition Initializing QrReady = True"
| "code_transition Initializing Connected = True"
| "code_transition Initializing Disconnected = True"
| "code_transition Initializing LoggedOut = True"
| "code_transition QrReady Connected = True"
| "code_transition QrReady Disconnected = True"
| "code_transition QrReady LoggedOut = True"
| "code_transition Connected Disconnected = True"
| "code_transition Connected LoggedOut = True"
| "code_transition Disconnected QrReady = True"
| "code_transition Disconnected Connected = True"
| "code_transition Disconnected LoggedOut = True"
| "code_transition a b = False"

text \<open>
  The life of one socket, as the transport drives it: QR payloads come only before the
  socket has opened, it opens at most once, and after it has reported \<open>close\<close> it sends
  nothing more. \<open>if (qr)\<close> is a truthiness test, so an empty payload is no QR payload.
\<close>

datatype sock_phase = Unopened | Opened | Ended

definition qr_present :: "ConnectionUpdate \<Rightarrow> bool" where
  "qr_present u = (case qr_payload u of None \<Rightarrow> False | Some q \<Rightarrow> q \<noteq> [])"

definition next_phase :: "ConnectionUpdate \<Rightarrow> sock_phase \<Rightarrow> sock_phase" where
  "next_phase u p =
     (if connection u = Some conn_close then Ended
      else if connection u = Some conn_open then Opened
      else p)"

definition receivable :: "sock_phase \<Rightarrow> ConnectionUpdate \<Rightarrow> bool" where
  "receivable p u =
     (p \<noteq> Ended \<and> (qr_present u \<longrightarrow> p = Unopened) \<and> (connection u = Some conn_open \<longrightarrow> p = Unopened))"

text \<open>
  A run is \<open>disciplined\<close> for the session \<open>i\<close> when \<open>i\<close> is never destroyed and every
  update on a socket of \<open>i\<close> is one the socket can send in its phase. The other
  sessions, their sockets, the timers and the calls are not restricted. \<open>track\<close> follows
  the phases of the sockets along the run, \<open>phases\<close> gives them at its end.
\<close>

fun allowed :: "string \<Rightarrow> mstate \<Rightarrow> (nat \<Rightarrow> sock_phase) \<Rightarrow> mevent \<Rightarrow> bool" where
  "allowed i s ph (Update k u) =
     (case socks s k of None \<Rightarrow> True | Some x \<Rightarrow> sock_session x = i \<longrightarrow> receivable (ph k) u)"
| "allowed i s ph (DestroySession j) = (j \<noteq> i)"
| "allowed i s ph e = True"

fun track :: "mstate \<Rightarrow> (nat \<Rightarrow> sock_phase) \<Rightarrow> mevent \<Rightarrow> nat \<Rightarrow> sock_phase" where
  "track s ph (Update k u) =
     (case socks s k of None \<Rightarrow> ph | Some x \<Rightarrow> ph(k := next_phase u (ph k)))"
| "track s ph e = ph"

fun disciplined :: "string \<Rightarrow> mstate \<Rightarrow> (nat \<Rightarrow> sock_phase) \<Rightarrow> mevent list \<Rightarrow> bool" where
  "disciplined i s ph [] = True"
| "disciplined i s ph (e # evs) = (allowed i s ph e \<and> disciplined i (mstep s e) (track s ph e) evs)"






definition touch :: "string \<Rightarrow> nat \<Rightarrow> (string \<rightharpoonup> ActiveSession) \<Rightarrow> (string \<rightharpoonup> ActiveSession)" where
  "touch j r m = (case m j of None \<Rightarrow> m | Some a \<Rightarrow> m(j \<mapsto> a\<lparr> info := r \<rparr>))"






section \<open>WebhookBridge (the event fan-out and retry dispatcher)\<close>

text \<open>
  An endpoint's configuration. Optional numbers are options; \<open>onError\<close> and
  \<open>onSuccess\<close> say whether the callback is configured. The request itself
  (\<open>_httpPost\<close>) is the environment's: \<open>response\<close> is what the transport reports
  for one POST.
\<close>

record WebhookConfig =
  url :: string
  events :: "string list option"
  secret :: "string option"
  timeoutMs :: "nat option"
  retries :: "nat option"
  retryDelayMs :: "nat option"
  onError :: bool
  onSuccess :: bool

definition DEFAULT_EVENTS :: "string list" where
  "DEFAULT_EVENTS = [''messages.upsert'', ''messages.update'', ''messages.delete'',
     ''message-receipt.update'', ''contacts.upsert'', ''contacts.update'', ''chats.upsert'',
     ''chats.update'', ''groups.upsert'', ''groups.update'', ''group-participants.update'',
     ''presence.update'', ''call'']"

datatype response = HttpStatus "nat option" | HttpTimeout | HttpError string

datatype wh_error = WebhookHTTP "nat option" | RequestTimedOut | TransportError string

text \<open>\<open>_httpPost\<close>: a status from 200 to 299 resolves, everything else rejects.\<close>

fun httpPost :: "response \<Rightarrow> wh_error + nat" where
  "httpPost (HttpStatus (Some c)) = (if c \<noteq> 0 \<and> 200 \<le> c \<and> c < 300 then Inr c else Inl (WebhookHTTP (Some c)))"
| "httpPost (HttpStatus None) = Inl (WebhookHTTP None)"
| "httpPost HttpTimeout = Inl RequestTimedOut"
| "httpPost (HttpError m) = Inl (TransportError m)"

text \<open>
  What one delivery does, in order: \<open>Post k\<close> is the request of attempt \<open>k\<close>,
  \<open>Wait d\<close> the \<open>setTimeout\<close> of \<open>d\<close> ms awaited before the next attempt.
\<close>

datatype wh_action =
    Post nat
  | Wait nat
  | SuccessCb string nat
  | ErrorCb string wh_error

text \<open>
  \<open>_sendWithRetry\<close>. \<open>env k\<close> is the transport's answer to the request of attempt
  \<open>k\<close>. The result is the actions performed and how the promise settles. The
  callbacks are taken not to throw.
\<close>

function sendWithRetry ::
  "WebhookConfig \<Rightarrow> string \<Rightarrow> (nat \<Rightarrow> response) \<Rightarrow> nat \<Rightarrow> wh_action list \<times> (wh_error + unit)" where
  "sendWithRetry cfg event env attempt =
     (case httpPost (env attempt) of
        Inr statusCode \<Rightarrow>
          (Post attempt # (if onSuccess cfg then [SuccessCb event statusCode] else []), Inr ())
      | Inl err \<Rightarrow>
          if attempt < (case retries cfg of None \<Rightarrow> 3 | Some r \<Rightarrow> r) then
            (let delay = (case retryDelayMs cfg of None \<Rightarrow> 1000 | Some d \<Rightarrow> d) * 2 ^ attempt;
                 rest = sendWithRetry cfg event env (attempt + 1)
             in (Post attempt # Wait delay # fst rest, snd rest))
          else ([Post attempt], Inl err))"
  by pat_completeness auto
termination
  by (relation "measure (\<lambda>(cfg, event, env, attempt).
        (case retries cfg of None \<Rightarrow> 3 | Some r \<Rightarrow> r) - attempt)") auto

text \<open>
  \<open>addEndpoint\<close> stores the configuration over the defaults; \<open>_dispatch\<close> starts
  one delivery for every endpoint subscribed to the event, and its \<open>catch\<close> calls
  \<open>onError\<close> when the delivery's promise rejects. The deliveries of different
  endpoints share nothing; the result lists, per endpoint, what its delivery did.
\<close>

definition addEndpoint :: "string \<Rightarrow> WebhookConfig \<Rightarrow> (string \<times> WebhookConfig) list
    \<Rightarrow> (string \<times> WebhookConfig) list" where
  "addEndpoint i c configs =
     AList.update i (c\<lparr> timeoutMs := Some (case timeoutMs c of None \<Rightarrow> 10000 | Some t \<Rightarrow> t),
                        retries := Some (case retries c of None \<Rightarrow> 3 | Some r \<Rightarrow> r),
                        retryDelayMs := Some (case retryDelayMs c of None \<Rightarrow> 1000 | Some d \<Rightarrow> d),
                        events := Some (case events c of None \<Rightarrow> DEFAULT_EVENTS | Some es \<Rightarrow> es) \<rparr>)
       configs"

definition deliver :: "WebhookConfig \<Rightarrow> string \<Rightarrow> (nat \<Rightarrow> response) \<Rightarrow> wh_action list" where
  "deliver cfg event env =
     (case sendWithRetry cfg event env 0 of
        (acts, Inr u) \<Rightarrow> acts
      | (acts, Inl err) \<Rightarrow> acts @ (if onError cfg then [ErrorCb event err] else []))"

definition dispatch :: "(string \<times> WebhookConfig) list \<Rightarrow> string \<Rightarrow> (string \<Rightarrow> nat \<Rightarrow> response)
    \<Rightarrow> (string \<times> wh_action list) list" where
  "dispatch configs event env =
     map (\<lambda>(i, cfg). (i, deliver cfg event (env i)))
       (filter (\<lambda>(i, cfg). event \<in> set (case events cfg of None \<Rightarrow> DEFAULT_EVENTS | Some es \<Rightarrow> es))
          configs)"

text \<open>The requests, the waits and the error callbacks among the actions of a delivery.\<close>

fun posts :: "wh_action list \<Rightarrow> nat list" where
  "posts [] = []"
| "posts (Post k # l) = k # posts l"
| "posts (x # l) = posts l"

fun waits :: "wh_action list \<Rightarrow> nat list" where
  "waits [] = []"
| "waits (Wait d # l) = d # waits l"
| "waits (x # l) = waits l"

fun error_calls :: "wh_action list \<Rightarrow> nat" where
  "error_calls [] = 0"
| "error_calls (ErrorCb e err # l) = Suc (error_calls l)"
| "error_calls (x # l) = error_calls l"

text \<open>The actions of a delivery whose attempts \<open>k, k+1, ..., r\<close> all fail.\<close>

fun failing_actions :: "nat \<Rightarrow> nat \<Rightarrow> nat \<Rightarrow> wh_action list" where
  "failing_actions d k 0 = [Post k]"
| "failing_actions d k (Suc n) = Post k # Wait (d * 2 ^ k) # failing_actions d (Suc k) n"

definition always_fails :: "(nat \<Rightarrow> response) \<Rightarrow> bool" where
  "always_fails env = (\<forall>k. \<exists>err. httpPost (env k) = Inl err)"

definition retries_or_default :: "WebhookConfig \<Rightarrow> nat" where
  "retries_or_default cfg = (case retries cfg of None \<Rightarrow> 3 | Some r \<Rightarrow> r)"

definition retryDelayMs_or_default :: "WebhookConfig \<Rightarrow> nat" where
  "retryDelayMs_or_default cfg = (case retryDelayMs cfg of None \<Rightarrow> 1000 | Some d \<Rightarrow> d)"

definition events_or_default :: "WebhookConfig \<Rightarrow> string list" where
  "events_or_default cfg = (case events cfg of None \<Rightarrow> DEFAULT_EVENTS | Some es \<Rightarrow> es)"

text \<open>A transport on which every request times out.\<close>

definition timing_out :: "nat \<Rightarrow> response" where
  "timing_out k = HttpTimeout"

definition zero_delay :: WebhookConfig where
  "zero_delay = \<lparr> url = ''http://localhost/hook'', events = None, secret = None,
     timeoutMs = None, retries = Some 3, retryDelayMs = Some 0, onError = True, onSuccess = False \<rparr>"

definition default_delay :: WebhookConfig where
  "default_delay = \<lparr> url = ''http://localhost/hook'', events = None, secret = None,
     timeoutMs = None, retries = None, retryDelayMs = None, onError = True, onSuccess = False \<rparr>"

section \<open>Properties of the RateLimitedQueue\<close>

subsection \<open>Fields the loop head and the delay leave alone\<close>

lemma nat_max_100: "(100::nat) \<le> nat (max 100 z)"
  by linarith

lemma randomDelay_ge: "100 \<le> fst (randomDelay cfg rs)"
  by (simp add: randomDelay_def Let_def nat_max_100 split: prod.splits)

lemma start_delay_fields [simp]:
  "config (start_delay t s) = config s" "trace (start_delay t s) = trace s"
  "lastSentAt (start_delay t s) = lastSentAt s" "now (start_delay t s) = now s"
  "sentThisMinute (start_delay t s) = sentThisMinute s" "sentToday (start_delay t s) = sentToday s"
  "queue (start_delay t s) = queue s" "processing (start_delay t s) = processing s"
  by (simp_all add: start_delay_def split: prod.splits)

lemma start_delay_pc_eq: "\<exists>w. pc (start_delay t s) = SleepDelay t w"
  by (simp add: start_delay_def split: prod.splits)

lemma start_delay_pc: "\<exists>d\<ge>100. pc (start_delay t s) = SleepDelay t (now s + d)"
  using randomDelay_ge [of "config s" "rands s"]
  by (auto simp: start_delay_def split: prod.splits)

lemma process_loop_fields [simp]:
  "config (process_loop s) = config s"
  "lastSentAt (process_loop s) = lastSentAt s" "now (process_loop s) = now s"
  "sentThisMinute (process_loop s) = sentThisMinute s" "sentToday (process_loop s) = sentToday s"
  by (simp_all add: process_loop_def Let_def split: list.splits option.splits)

lemma process_loop_log:
  "trace (process_loop s) = trace s \<or> (\<exists>j. trace (process_loop s) = trace s @ [DailyLimitCb j])"
  by (simp add: process_loop_def Let_def split: list.splits option.splits)

lemma process_loop_busy: "queue s \<noteq> [] \<Longrightarrow> pc (process_loop s) \<noteq> Idle"
  using start_delay_pc_eq
  by (auto simp: process_loop_def Let_def split: list.splits option.splits) (metis pc.distinct(5))+

lemma process_loop_takes_head:
  assumes "queue s = t' # rest" "sentToday s < messagesPerDay (config s)"
    "sentThisMinute s < messagesPerMinute (config s)"
  shows "queue (process_loop s) = rest \<and>
    (\<exists>w. pc (process_loop s) = SleepRecipient t' w \<or> pc (process_loop s) = SleepDelay t' w)"
  using assms start_delay_pc_eq [of t' "s\<lparr>queue := rest\<rparr>"]
  by (auto simp: process_loop_def Let_def split: option.splits)

lemma config_step [simp]: "config (step s e) = config s"
  by (cases e)
     (auto simp: enqueue_def process_def clear_def resume_def settle_def minuteTimer_def
        dayTimer_def Let_def split: pc.splits sum.splits)

lemma config_run [simp]: "config (run s evs) = config s"
  unfolding run_def by (induction evs arbitrary: s) simp_all

lemmas qdefs = new_queue_def enqueue_def process_def process_loop_def start_delay_def
  randomDelay_def next_rand_def resume_def settle_def minuteTimer_def dayTimer_def clear_def
  nextMinuteMs_def waitUntilMidnight_def cfg2_def DEFAULT_CONFIG_def Let_def run_def

subsection \<open>Per-recipient spacing\<close>

lemma spaced_snoc:
  "spaced R (l @ [x]) = (spaced R l \<and>
     (case x of Dispatched h' j t2 \<Rightarrow> after_resolved R l j t2 | _ \<Rightarrow> True))"
proof (induction l)
  case Nil
  then show ?case by (cases x) (simp_all add: after_resolved_def)
next
  case (Cons a l)
  show ?case
  proof (cases a)
    case (Resolved h j t1 v)
    then show ?thesis using Cons
      by (cases x) (simp_all add: after_resolved_def, blast)
  qed (use Cons in \<open>cases x; simp add: after_resolved_def\<close>)+
qed

lemma spaced_append_tail: "spaced R (xs @ ys) \<Longrightarrow> spaced R ys"
proof (induction xs)
  case (Cons a xs)
  then show ?case by (cases a) simp_all
qed simp

lemma loop_inv_process_loop:
  assumes "loop_inv s"
  shows "spacing_inv (process_loop s)"
proof -
  let ?R = "perRecipientDelayMs (config s)"
  from assms have lo: "last_ok s" and sp: "spaced ?R (trace s)" by (simp_all add: loop_inv_def)
  have "trace (process_loop s) = trace s \<or> (\<exists>j. trace (process_loop s) = trace s @ [DailyLimitCb j])"
    by (rule process_loop_log)
  then have pl: "set (trace (process_loop s)) = set (trace s) \<or> (\<exists>j. set (trace (process_loop s)) = insert (DailyLimitCb j) (set (trace s)))"
    by auto
  have l1: "last_ok (process_loop s)"
    using lo pl unfolding last_ok_def by (elim disjE exE) simp_all
  have l2: "spaced ?R (trace (process_loop s))"
    using sp process_loop_log [of s] by (auto simp: spaced_snoc)
  have l3: "after_resolved ?R (trace (process_loop s)) j w = after_resolved ?R (trace s) j w" for j w
    using pl unfolding after_resolved_def by (elim disjE exE) simp_all
  have "pc_ok ?R (trace (process_loop s)) (now s) (pc (process_loop s))"
  proof (cases "queue s")
    case Nil
    then show ?thesis by (simp add: process_loop_def)
  next
    case (Cons t rest)
    show ?thesis
    proof (cases "messagesPerDay (config s) \<le> sentToday s \<or> messagesPerMinute (config s) \<le> sentThisMinute s")
      case True
      then show ?thesis using Cons by (auto simp: process_loop_def)
    next
      case False
      show ?thesis
      proof (cases "lastSentAt s (jid t)")
        case None
        then have "after_resolved ?R (trace s) (jid t) w" for w
          using lo unfolding last_ok_def after_resolved_def by fastforce
        moreover obtain d where "d \<ge> 100" "pc (start_delay t (s\<lparr>queue := rest\<rparr>)) = SleepDelay t (now s + d)"
          using start_delay_pc [of t "s\<lparr>queue := rest\<rparr>"] by auto
        ultimately show ?thesis using Cons False None l3
          by (simp add: process_loop_def Let_def)
      next
        case (Some ls)
        have bound: "t1 \<le> ls \<and> 0 < ls" if "Resolved h (jid t) t1 v \<in> set (trace s)" for h t1 v
          using lo that Some by (fastforce simp: last_ok_def)
        show ?thesis
        proof (cases "ls \<noteq> 0 \<and> int (now s) - int ls < int ?R")
          case True
          then have "after_resolved ?R (trace s) (jid t) (now s + nat (int ?R - (int (now s) - int ls)))"
            using bound by (fastforce simp: after_resolved_def)
          then show ?thesis using Cons False Some True l3
            by (simp add: process_loop_def Let_def)
        next
          case F2: False
          obtain d where d: "d \<ge> 100" "pc (start_delay t (s\<lparr>queue := rest\<rparr>)) = SleepDelay t (now s + d)"
            using start_delay_pc [of t "s\<lparr>queue := rest\<rparr>"] by auto
          have "after_resolved ?R (trace s) (jid t) (now s + d)"
            unfolding after_resolved_def
          proof (intro allI impI)
            fix h t1 v assume "Resolved h (jid t) t1 v \<in> set (trace s)"
            then have "t1 \<le> ls" "0 < ls" using bound by auto
            with F2 show "t1 + ?R \<le> now s + d" by linarith
          qed
          then show ?thesis using Cons False Some F2 l3 d
            by (auto simp: process_loop_def Let_def)
        qed
      qed
    qed
  qed
  then show ?thesis using l1 l2 by (simp add: spacing_inv_def loop_inv_def)
qed


lemma quiet_not_in [simp]:
  "\<forall>x\<in>set l. quiet x \<Longrightarrow> Resolved h j t v \<notin> set l"
  "\<forall>x\<in>set l. quiet x \<Longrightarrow> Dispatched h j t \<notin> set l"
  by auto

lemma spaced_quiet: "\<forall>x\<in>set l'. quiet x \<Longrightarrow> spaced R (l @ l') = spaced R l"
proof (induction l' rule: rev_induct)
  case (snoc x xs)
  have "spaced R ((l @ xs) @ [x]) = spaced R (l @ xs)"
    using snoc.prems by (cases x) (simp_all add: spaced_snoc del: append_assoc)
  then show ?case using snoc by simp
qed simp

lemma after_resolved_quiet:
  "\<forall>x\<in>set l'. quiet x \<Longrightarrow> after_resolved R (l @ l') j w = after_resolved R l j w"
  by (auto simp: after_resolved_def)

lemma after_resolved_mono: "after_resolved R l j w \<Longrightarrow> w \<le> w' \<Longrightarrow> after_resolved R l j w'"
  unfolding after_resolved_def by (meson le_trans)

lemma pc_ok_quiet:
  "\<forall>x\<in>set l'. quiet x \<Longrightarrow> pc_ok R l n p \<Longrightarrow> n \<le> n' \<Longrightarrow> pc_ok R (l @ l') n' p"
  by (cases p) (simp_all add: after_resolved_quiet)

lemma loop_inv_quiet:
  assumes "loop_inv s" "config s' = config s" "lastSentAt s' = lastSentAt s"
    "trace s' = trace s @ l'" "\<forall>x\<in>set l'. quiet x" "now s \<le> now s'"
  shows "loop_inv s'"
proof -
  have "last_ok s'"
    unfolding last_ok_def
  proof (intro allI impI)
    fix h j t1 v assume "Resolved h j t1 v \<in> set (trace s')"
    then have "Resolved h j t1 v \<in> set (trace s)" using assms(4,5) by auto
    then have "0 < t1 \<and> t1 \<le> now s \<and> Dispatched h j t1 \<in> set (trace s) \<and>
      (\<exists>ts. lastSentAt s j = Some ts \<and> t1 \<le> ts)"
      using assms(1) unfolding loop_inv_def last_ok_def by blast
    then show "0 < t1 \<and> t1 \<le> now s' \<and> Dispatched h j t1 \<in> set (trace s') \<and>
      (\<exists>ts. lastSentAt s' j = Some ts \<and> t1 \<le> ts)"
      using assms(3,4,6) by auto
  qed
  then show ?thesis using assms by (simp add: loop_inv_def spaced_quiet)
qed

lemma spacing_inv_quiet:
  assumes "spacing_inv s" "config s' = config s" "lastSentAt s' = lastSentAt s"
    "trace s' = trace s @ l'" "\<forall>x\<in>set l'. quiet x" "now s \<le> now s'" "pc s' = pc s"
  shows "spacing_inv s'"
  using assms loop_inv_quiet [of s s' l'] pc_ok_quiet [of l' _ "trace s" "now s" "pc s" "now s'"]
  by (simp add: spacing_inv_def)

lemma spacing_inv_new: "spacing_inv (new_queue cfg t0 rs)"
  by (simp add: spacing_inv_def loop_inv_def last_ok_def new_queue_def)

lemma spacing_inv_advance: "spacing_inv s \<Longrightarrow> spacing_inv (s\<lparr>now := now s + d\<rparr>)"
  by (rule spacing_inv_quiet [where l' = "[]"]) simp_all

lemma spacing_inv_clear: "spacing_inv s \<Longrightarrow> spacing_inv (clear s)"
  by (rule spacing_inv_quiet [where l' = "map (\<lambda>t. Rejected (handle t) QueueCleared) (queue s)"])
     (auto simp: clear_def)

lemma spacing_inv_minuteTimer: "spacing_inv s \<Longrightarrow> spacing_inv (minuteTimer s)"
  unfolding minuteTimer_def
  by (auto intro: spacing_inv_quiet [where l' = "[MinuteReset]"])

lemma spacing_inv_dayTimer: "spacing_inv s \<Longrightarrow> spacing_inv (dayTimer s)"
  unfolding dayTimer_def
  by (auto intro: spacing_inv_quiet [where l' = "[DayReset]"])


lemma spacing_inv_loop_inv: "spacing_inv s \<Longrightarrow> loop_inv s"
  by (simp add: spacing_inv_def)

lemma spacing_inv_enqueue:
  assumes "spacing_inv s"
  shows "spacing_inv (enqueue j f s)"
proof -
  define l' where "l' = (if onRateLimited (config s)
      then [RateLimitedCb j (length (queue s @ [\<lparr>jid = j, fn = f, handle = nextHandle s, enqueuedAt = now s\<rparr>]))] else [])"
  define s1 where "s1 = s\<lparr> queue := queue s @ [\<lparr>jid = j, fn = f, handle = nextHandle s, enqueuedAt = now s\<rparr>],
      nextHandle := Suc (nextHandle s), trace := trace s @ l' \<rparr>"
  have q: "\<forall>x\<in>set l'. quiet x" by (simp add: l'_def)
  have e: "enqueue j f s = (if \<not> processing s then process_loop (s1\<lparr>processing := True\<rparr>) else s1)"
    by (simp add: enqueue_def process_def s1_def l'_def Let_def)
  have i1: "spacing_inv s1"
    by (rule spacing_inv_quiet [OF assms _ _ _ q]) (simp_all add: s1_def)
  have "loop_inv (s1\<lparr>processing := True\<rparr>)"
    by (rule loop_inv_quiet [OF spacing_inv_loop_inv [OF assms] _ _ _ q]) (simp_all add: s1_def)
  then have "spacing_inv (process_loop (s1\<lparr>processing := True\<rparr>))"
    by (rule loop_inv_process_loop)
  with i1 e show ?thesis by simp
qed

lemma spacing_inv_settle:
  assumes "spacing_inv s" "pc s = AwaitFn t d"
  shows "spacing_inv (settle t d s)"
proof -
  let ?R = "perRecipientDelayMs (config s)"
  from assms have li: "loop_inv s" and d: "0 < d" "d \<le> now s"
    "Dispatched (handle t) (jid t) d \<in> set (trace s)"
    by (simp_all add: spacing_inv_def)
  show ?thesis
  proof (cases "fn t")
    case (Inl e)
    have "loop_inv (s\<lparr>trace := trace s @ [Rejected (handle t) (OpFailed e)]\<rparr>)"
      by (rule loop_inv_quiet [OF li, where l' = "[Rejected (handle t) (OpFailed e)]"]) simp_all
    then show ?thesis using Inl by (simp add: settle_def loop_inv_process_loop)
  next
    case (Inr v)
    define s' where "s' = s\<lparr> lastSentAt := (lastSentAt s)(jid t \<mapsto> now s),
        sentThisMinute := sentThisMinute s + 1, sentToday := sentToday s + 1,
        trace := trace s @ [Resolved (handle t) (jid t) d v] \<rparr>"
    have "last_ok s'"
      unfolding last_ok_def
    proof (intro allI impI)
      fix h j t1 va assume a: "Resolved h j t1 va \<in> set (trace s')"
      show "0 < t1 \<and> t1 \<le> now s' \<and> Dispatched h j t1 \<in> set (trace s') \<and>
        (\<exists>ts. lastSentAt s' j = Some ts \<and> t1 \<le> ts)"
      proof (cases "Resolved h j t1 va \<in> set (trace s)")
        case True
        then have "0 < t1 \<and> t1 \<le> now s \<and> Dispatched h j t1 \<in> set (trace s) \<and>
          (\<exists>ts. lastSentAt s j = Some ts \<and> t1 \<le> ts)"
          using li unfolding loop_inv_def last_ok_def by blast
        then show ?thesis by (auto simp: s'_def)
      next
        case False
        with a have "h = handle t" "j = jid t" "t1 = d" by (auto simp: s'_def)
        then show ?thesis using d by (simp add: s'_def)
      qed
    qed
    moreover have "spaced ?R (trace s')"
      using li by (simp add: s'_def loop_inv_def spaced_snoc)
    ultimately have "loop_inv s'" by (simp add: loop_inv_def s'_def)
    then have "spacing_inv (process_loop s')" by (rule loop_inv_process_loop)
    then show ?thesis using Inr by (simp add: settle_def s'_def)
  qed
qed

lemma spacing_inv_resume:
  assumes "spacing_inv s"
  shows "spacing_inv (resume s)"
proof (cases "pc s")
  case Idle
  then show ?thesis using assms by (simp add: resume_def)
next
  case (SleepBudget w)
  then show ?thesis using assms
    by (simp add: resume_def loop_inv_process_loop spacing_inv_loop_inv)
next
  case (SleepRecipient t w)
  show ?thesis
  proof (cases "w \<le> now s")
    case True
    obtain d where d: "d \<ge> 100" "pc (start_delay t s) = SleepDelay t (now s + d)"
      using start_delay_pc [of t s] by auto
    have "after_resolved (perRecipientDelayMs (config s)) (trace s) (jid t) (now s + d)"
      using assms SleepRecipient True
      by (auto simp: spacing_inv_def intro: after_resolved_mono)
    moreover have "loop_inv (start_delay t s)"
      by (rule loop_inv_quiet [OF spacing_inv_loop_inv [OF assms], where l' = "[]"]) simp_all
    ultimately show ?thesis using SleepRecipient True d
      by (simp add: resume_def spacing_inv_def)
  next
    case False
    then show ?thesis using assms SleepRecipient by (simp add: resume_def)
  qed
next
  case (SleepDelay t w)
  show ?thesis
  proof (cases "w \<le> now s")
    case True
    let ?R = "perRecipientDelayMs (config s)"
    define s' where "s' = s\<lparr> pc := AwaitFn t (now s),
        trace := trace s @ [Dispatched (handle t) (jid t) (now s)] \<rparr>"
    from assms SleepDelay have w: "0 < w" "after_resolved ?R (trace s) (jid t) w"
      and li: "loop_inv s"
      by (simp_all add: spacing_inv_def)
    have ar: "after_resolved ?R (trace s) (jid t) (now s)"
      using w True by (auto intro: after_resolved_mono)
    have "last_ok s'"
      using li unfolding loop_inv_def last_ok_def s'_def by auto
    moreover have "spaced ?R (trace s')"
      using li ar by (simp add: s'_def loop_inv_def spaced_snoc)
    ultimately have "spacing_inv s'"
      using w True by (simp add: spacing_inv_def loop_inv_def s'_def)
    then show ?thesis using SleepDelay True by (simp add: resume_def s'_def)
  next
    case False
    then show ?thesis using assms SleepDelay by (simp add: resume_def)
  qed
next
  case (AwaitFn t d)
  then show ?thesis using assms by (simp add: resume_def spacing_inv_settle)
qed

lemma spacing_inv_step: "spacing_inv s \<Longrightarrow> spacing_inv (step s e)"
  by (cases e)
     (simp_all add: spacing_inv_advance spacing_inv_enqueue spacing_inv_clear
        spacing_inv_resume spacing_inv_minuteTimer spacing_inv_dayTimer)

lemma spacing_inv_run: "spacing_inv s \<Longrightarrow> spacing_inv (run s evs)"
  unfolding run_def by (induction evs arbitrary: s) (simp_all add: spacing_inv_step)


subsection \<open>The per-minute budget\<close>

lemma dsr_snoc [simp]: "dispatched_since_reset (l @ [x]) = count_step (dispatched_since_reset l) x"
  by (simp add: dispatched_since_reset_def)

lemma dsr_Nil [simp]: "dispatched_since_reset [] = 0"
  by (simp add: dispatched_since_reset_def)

lemma dsr_rejected [simp]:
  "dispatched_since_reset (l @ map (\<lambda>t. Rejected (handle t) QueueCleared) q) = dispatched_since_reset l"
  by (induction q rule: rev_induct) (simp_all flip: append_assoc)

lemma pc_budget_bound: "c \<le> M \<Longrightarrow> pc_budget M c n p \<Longrightarrow> n \<le> M"
  by (cases p) auto

lemma pc_budget_reset: "pc_budget M c n p \<Longrightarrow> pc_budget M 0 0 p"
  by (cases p) auto

lemma budget_inv_process_loop:
  assumes "queue_ok s" "dispatched_since_reset (trace s) \<le> sentThisMinute s" "processing s"
  shows "budget_inv (process_loop s)"
proof (cases "queue s")
  case Nil
  then show ?thesis using assms by (simp add: process_loop_def budget_inv_def queue_ok_def)
next
  case (Cons t rest)
  show ?thesis
  proof (cases "messagesPerDay (config s) \<le> sentToday s")
    case True
    then show ?thesis using assms Cons
      by (simp add: process_loop_def budget_inv_def queue_ok_def)
  next
    case nd: False
    show ?thesis
    proof (cases "messagesPerMinute (config s) \<le> sentThisMinute s")
      case True
      then show ?thesis using assms Cons nd
        by (simp add: process_loop_def budget_inv_def queue_ok_def)
    next
      case False
      obtain w where w: "pc (start_delay t (s\<lparr>queue := rest\<rparr>)) = SleepDelay t w"
        using start_delay_pc_eq by blast
      show ?thesis using assms Cons nd False w
        by (auto simp: process_loop_def budget_inv_def queue_ok_def Let_def split: option.splits)
    qed
  qed
qed


lemma budget_inv_new: "budget_inv (new_queue cfg t0 rs)"
  by (simp add: budget_inv_def queue_ok_def new_queue_def)

lemma budget_inv_enqueue:
  assumes "budget_inv s" "resolves (Enqueue j f)"
  shows "budget_inv (enqueue j f s)"
proof -
  define t where "t = \<lparr>jid = j, fn = f, handle = nextHandle s, enqueuedAt = now s\<rparr>"
  define s1 where "s1 = s\<lparr> queue := queue s @ [t], nextHandle := Suc (nextHandle s),
      trace := trace s @ (if onRateLimited (config s) then [RateLimitedCb j (length (queue s @ [t]))] else []) \<rparr>"
  have e: "enqueue j f s = (if \<not> processing s then process_loop (s1\<lparr>processing := True\<rparr>) else s1)"
    by (simp add: enqueue_def process_def s1_def t_def Let_def)
  have st: "succeeds t" using assms(2) by (cases f) (simp_all add: t_def)
  have n: "dispatched_since_reset (trace s1) = dispatched_since_reset (trace s)"
    by (simp add: s1_def)
  have qo: "queue_ok s1" using assms(1) st by (auto simp: budget_inv_def queue_ok_def s1_def)
  show ?thesis
  proof (cases "processing s")
    case True
    then show ?thesis using assms(1) qo n e by (simp add: budget_inv_def s1_def)
  next
    case False
    then have "pc s = Idle" using assms(1) by (simp add: budget_inv_def)
    then have "dispatched_since_reset (trace s1) \<le> sentThisMinute s1"
      using assms(1) n by (simp add: budget_inv_def s1_def)
    then have "budget_inv (process_loop (s1\<lparr>processing := True\<rparr>))"
      using qo by (intro budget_inv_process_loop) (simp_all add: queue_ok_def)
    then show ?thesis using False e by simp
  qed
qed

lemma budget_inv_clear: "budget_inv s \<Longrightarrow> budget_inv (clear s)"
  by (simp add: budget_inv_def queue_ok_def clear_def)

lemma budget_inv_minuteTimer: "budget_inv s \<Longrightarrow> budget_inv (minuteTimer s)"
  by (auto simp: budget_inv_def queue_ok_def minuteTimer_def intro: pc_budget_reset)

lemma budget_inv_dayTimer: "budget_inv s \<Longrightarrow> budget_inv (dayTimer s)"
  by (simp add: budget_inv_def queue_ok_def dayTimer_def)

lemma budget_inv_resume:
  assumes "budget_inv s"
  shows "budget_inv (resume s)"
proof (cases "pc s")
  case Idle
  then show ?thesis using assms by (simp add: resume_def)
next
  case (SleepBudget w)
  have "budget_inv (process_loop s)"
    using assms SleepBudget by (intro budget_inv_process_loop) (simp_all add: budget_inv_def)
  then show ?thesis using assms SleepBudget by (simp add: resume_def)
next
  case (SleepRecipient t w)
  obtain w' where "pc (start_delay t s) = SleepDelay t w'"
    using start_delay_pc_eq by blast
  then show ?thesis using assms SleepRecipient
    by (simp add: resume_def budget_inv_def queue_ok_def)
next
  case (SleepDelay t w)
  then show ?thesis using assms
    by (simp add: resume_def budget_inv_def queue_ok_def)
next
  case (AwaitFn t d)
  from assms AwaitFn have c: "sentThisMinute s < messagesPerMinute (config s)"
    "dispatched_since_reset (trace s) \<le> Suc (sentThisMinute s)" "succeeds t"
    "queue_ok s" "processing s"
    by (simp_all add: budget_inv_def)
  then obtain v where v: "fn t = Inr v" by (cases "fn t") simp_all
  define s' where "s' = s\<lparr> lastSentAt := (lastSentAt s)(jid t \<mapsto> now s),
      sentThisMinute := sentThisMinute s + 1, sentToday := sentToday s + 1,
      trace := trace s @ [Resolved (handle t) (jid t) d v] \<rparr>"
  have "budget_inv (process_loop s')"
    using c by (intro budget_inv_process_loop) (simp_all add: s'_def queue_ok_def)
  then show ?thesis using AwaitFn v by (simp add: resume_def settle_def s'_def)
qed

lemma budget_inv_step: "budget_inv s \<Longrightarrow> resolves e \<Longrightarrow> budget_inv (step s e)"
proof (cases e)
  case (Advance d)
  then show "budget_inv s \<Longrightarrow> budget_inv (step s e)"
    by (simp add: budget_inv_def queue_ok_def)
qed (simp_all add: budget_inv_enqueue budget_inv_clear budget_inv_resume
       budget_inv_minuteTimer budget_inv_dayTimer)

lemma budget_inv_run:
  "budget_inv s \<Longrightarrow> \<forall>e\<in>set evs. resolves e \<Longrightarrow> budget_inv (run s evs)"
  unfolding run_def by (induction evs arbitrary: s) (simp_all add: budget_inv_step)


subsection \<open>One task in flight at a time\<close>

lemma fly_Broken [simp]: "foldl fly Broken l = Broken"
  by (induction l) simp_all

lemma fly_rejected_cleared [simp]:
  "foldl fly f (map (\<lambda>t. Rejected (handle t) QueueCleared) q) = f"
  by (induction q) (cases f; simp)+

lemma start_delay_flight [simp]:
  "pc_flight (pc (start_delay t s)) = Free" "pc (start_delay t s) \<noteq> Idle"
  by (simp_all add: start_delay_def split: prod.splits)

lemma process_loop_flight:
  assumes "foldl fly Free (trace s) = Free" and "processing s"
  shows "flight_inv (process_loop s)"
proof -
  have t: "foldl fly Free (trace (process_loop s)) = Free"
    using process_loop_log [of s] assms(1) by auto
  have "pc_flight (pc (process_loop s)) = Free"
    by (simp add: process_loop_def Let_def split: list.splits option.splits)
  moreover have "processing (process_loop s) \<longleftrightarrow> pc (process_loop s) \<noteq> Idle"
    using assms(2) by (simp add: process_loop_def Let_def split: list.splits option.splits)
  ultimately show ?thesis using t by (simp add: flight_inv_def)
qed

lemma flight_inv_new: "flight_inv (new_queue cfg t0 rs)"
  by (simp add: flight_inv_def new_queue_def)

lemma flight_inv_enqueue:
  assumes "flight_inv s"
  shows "flight_inv (enqueue j f s)"
proof -
  define t where "t = \<lparr>jid = j, fn = f, handle = nextHandle s, enqueuedAt = now s\<rparr>"
  define s1 where "s1 = s\<lparr> queue := queue s @ [t], nextHandle := Suc (nextHandle s),
      trace := trace s @ (if onRateLimited (config s) then [RateLimitedCb j (length (queue s @ [t]))] else []) \<rparr>"
  have e: "enqueue j f s = (if \<not> processing s then process_loop (s1\<lparr>processing := True\<rparr>) else s1)"
    by (simp add: enqueue_def process_def s1_def t_def Let_def)
  have f1: "foldl fly Free (trace s1) = foldl fly Free (trace s)"
    by (cases "foldl fly Free (trace s)") (simp_all add: s1_def)
  show ?thesis
  proof (cases "processing s")
    case True
    then show ?thesis using assms f1 e by (simp add: flight_inv_def s1_def)
  next
    case False
    then have "pc s = Idle" using assms by (simp add: flight_inv_def)
    then have "foldl fly Free (trace (s1\<lparr>processing := True\<rparr>)) = Free"
      using assms f1 by (simp add: flight_inv_def)
    then have "flight_inv (process_loop (s1\<lparr>processing := True\<rparr>))"
      by (rule process_loop_flight) simp
    then show ?thesis using False e by simp
  qed
qed

lemma flight_inv_resume:
  assumes "flight_inv s"
  shows "flight_inv (resume s)"
proof (cases "pc s")
  case Idle
  then show ?thesis using assms by (simp add: resume_def)
next
  case (SleepBudget w)
  have "foldl fly Free (trace s) = Free" "processing s"
    using assms SleepBudget by (simp_all add: flight_inv_def)
  then have "flight_inv (process_loop s)" by (rule process_loop_flight)
  then show ?thesis using SleepBudget assms by (simp add: resume_def)
next
  case (SleepRecipient t w)
  then show ?thesis using assms by (simp add: resume_def flight_inv_def)
next
  case (SleepDelay t w)
  then show ?thesis using assms by (simp add: resume_def flight_inv_def)
next
  case (AwaitFn t d)
  have p: "processing s" using assms AwaitFn by (simp add: flight_inv_def)
  show ?thesis
  proof (cases "fn t")
    case (Inl e)
    have "flight_inv (process_loop (s\<lparr>trace := trace s @ [Rejected (handle t) (OpFailed e)]\<rparr>))"
      using assms AwaitFn p by (intro process_loop_flight) (simp_all add: flight_inv_def)
    then show ?thesis using AwaitFn Inl by (simp add: resume_def settle_def)
  next
    case (Inr v)
    have "flight_inv (process_loop (s\<lparr> lastSentAt := (lastSentAt s)(jid t \<mapsto> now s),
        sentThisMinute := sentThisMinute s + 1, sentToday := sentToday s + 1,
        trace := trace s @ [Resolved (handle t) (jid t) d v] \<rparr>))"
      using assms AwaitFn p by (intro process_loop_flight) (simp_all add: flight_inv_def)
    then show ?thesis using AwaitFn Inr by (simp add: resume_def settle_def)
  qed
qed

lemma flight_inv_step: "flight_inv s \<Longrightarrow> flight_inv (step s e)"
proof (cases e)
  case (Advance d)
  then show "flight_inv s \<Longrightarrow> ?thesis" by (simp add: flight_inv_def)
next
  case Clear
  then show "flight_inv s \<Longrightarrow> ?thesis" by (simp add: flight_inv_def clear_def)
next
  case MinuteTimer
  then show "flight_inv s \<Longrightarrow> ?thesis"
    by (cases "pc_flight (pc s)") (simp_all add: flight_inv_def minuteTimer_def)
next
  case DayTimer
  then show "flight_inv s \<Longrightarrow> ?thesis"
    by (cases "pc_flight (pc s)") (simp_all add: flight_inv_def dayTimer_def)
qed (simp_all add: flight_inv_enqueue flight_inv_resume)

lemma flight_inv_run: "flight_inv s \<Longrightarrow> flight_inv (run s evs)"
  unfolding run_def by (induction evs arbitrary: s) (simp_all add: flight_inv_step)

lemma flight_inv_not_broken: "flight_inv s \<Longrightarrow> foldl fly Free (trace s) \<noteq> Broken"
  by (cases "pc s") (simp_all add: flight_inv_def)

lemma busy_to_free:
  "foldl fly (Busy h j t) ys = Free \<Longrightarrow>
     (\<exists>v. Resolved h j t v \<in> set ys) \<or> (\<exists>e. Rejected h (OpFailed e) \<in> set ys)"
proof (induction ys)
  case Nil
  then show ?case by simp
next
  case (Cons y ys)
  show ?case
  proof (cases "fly (Busy h j t) y = Busy h j t")
    case True
    then show ?thesis using Cons by auto
  next
    case False
    then show ?thesis
    proof (cases y)
      case (Dispatched h' j' t')
      then show ?thesis using Cons.prems by simp
    next
      case (Resolved h' j' t' v)
      then show ?thesis using Cons.prems by (auto split: if_splits)
    next
      case (Rejected h' e)
      then show ?thesis using Cons.prems False by (cases e) (auto split: if_splits)
    qed (use False in simp_all)
  qed
qed

lemma dispatch_needs_free:
  "fly f (Dispatched h j t) \<noteq> Broken \<Longrightarrow> f = Free \<and> fly f (Dispatched h j t) = Busy h j t"
  by (cases f) simp_all

lemma settles_between:
  assumes "foldl fly Free (xs @ Dispatched h j t1 # ys @ Dispatched h' j' t2 # zs) \<noteq> Broken"
  shows "(\<exists>v. Resolved h j t1 v \<in> set ys) \<or> (\<exists>e. Rejected h (OpFailed e) \<in> set ys)"
proof -
  let ?f1 = "foldl fly Free xs"
  let ?f2 = "foldl fly (fly ?f1 (Dispatched h j t1)) ys"
  have nb: "foldl fly (fly ?f2 (Dispatched h' j' t2)) zs \<noteq> Broken"
    using assms by simp
  then have "fly ?f2 (Dispatched h' j' t2) \<noteq> Broken" by auto
  then have f2: "?f2 = Free" using dispatch_needs_free by blast
  then have "fly ?f1 (Dispatched h j t1) \<noteq> Broken" by auto
  then have "fly ?f1 (Dispatched h j t1) = Busy h j t1" using dispatch_needs_free by blast
  with f2 show ?thesis using busy_to_free by simp
qed
subsection \<open>The budget per wall-clock minute\<close>

lemma dispatch_times_append: "dispatch_times (xs @ ys) = dispatch_times xs @ dispatch_times ys"
  by (induction xs rule: dispatch_times.induct) simp_all

lemma dispatch_times_rejected [simp]:
  "dispatch_times (map (\<lambda>t. Rejected (handle t) QueueCleared) q) = []"
  by (induction q) simp_all

lemma start_delay_due [simp]: "minuteResetDue (start_delay t s) = minuteResetDue s"
  by (simp add: start_delay_def split: prod.splits)

lemma clock_view_start_delay [simp]: "clock_view (start_delay t s) = clock_view s"
  by (simp add: clock_view_def)

lemma clock_view_process_loop [simp]: "clock_view (process_loop s) = clock_view s"
  by (simp add: clock_view_def process_loop_def Let_def dispatch_times_append
      split: list.splits option.splits)

lemma clock_view_enqueue [simp]: "clock_view (enqueue j f s) = clock_view s"
proof -
  have "clock_view (s\<lparr>queue := q, nextHandle := n, trace := trace s @ l, processing := True\<rparr>) = clock_view s"
    if "l = [] \<or> (\<exists>a b. l = [RateLimitedCb a b])" for q n l
    using that by (auto simp: clock_view_def dispatch_times_append)
  moreover have "clock_view (s\<lparr>queue := q, nextHandle := n, trace := trace s @ l\<rparr>) = clock_view s"
    if "l = [] \<or> (\<exists>a b. l = [RateLimitedCb a b])" for q n l
    using that by (auto simp: clock_view_def dispatch_times_append)
  ultimately show ?thesis
    by (simp add: enqueue_def process_def Let_def)
qed

lemma clock_view_clear [simp]: "clock_view (clear s) = clock_view s"
  by (simp add: clock_view_def clear_def dispatch_times_append)

lemma clock_view_dayTimer [simp]: "clock_view (dayTimer s) = clock_view s"
  by (simp add: clock_view_def dayTimer_def dispatch_times_append)

lemma clock_view_settle [simp]: "clock_view (settle t d s) = clock_view s"
proof (cases "fn t")
  case (Inl e)
  have "clock_view (s\<lparr>trace := trace s @ [Rejected (handle t) (OpFailed e)]\<rparr>) = clock_view s"
    by (simp add: clock_view_def dispatch_times_append)
  then show ?thesis using Inl by (simp add: settle_def)
next
  case (Inr v)
  have "clock_view (s\<lparr> lastSentAt := (lastSentAt s)(jid t \<mapsto> now s),
        sentThisMinute := sentThisMinute s + 1, sentToday := sentToday s + 1,
        trace := trace s @ [Resolved (handle t) (jid t) d v] \<rparr>) = clock_view s"
    by (simp add: clock_view_def dispatch_times_append)
  then show ?thesis using Inr by (simp add: settle_def)
qed

lemma clock_view_resume:
  "clock_view (resume s) =
     (if (\<exists>t w. pc s = SleepDelay t w \<and> w \<le> now s)
      then (now s, minuteResetDue s, dispatch_times (trace s) @ [now s],
            Suc (dispatched_since_reset (trace s)))
      else clock_view s)"
proof (cases "pc s")
  case (SleepDelay t w)
  then show ?thesis
    by (simp add: resume_def clock_view_def dispatch_times_append dispatched_since_reset_def)
qed (simp_all add: resume_def)

lemma clock_view_minuteTimer:
  "clock_view (minuteTimer s) =
     (if minuteResetDue s \<le> now s
      then (now s, now s + 60000, dispatch_times (trace s), 0)
      else clock_view s)"
  by (simp add: minuteTimer_def clock_view_def dispatch_times_append)

lemma window_inv_view:
  "clock_view s' = clock_view s \<Longrightarrow> window_inv M s \<Longrightarrow> window_inv M s'"
  by (simp add: window_inv_def)

lemma window_ok_advance:
  "window_ok M (t, rdue, ds, n) \<Longrightarrow> t + d \<le> rdue \<Longrightarrow> window_ok M (t + d, rdue, ds, n)"
  by (simp add: window_ok_def)

lemma minute_lower: "x div 60000 = k \<Longrightarrow> 60000 * k \<le> (x::nat)"
  using div_times_less_eq_dividend [of x 60000] by (simp add: mult.commute)

lemma minute_after: "60000 * (k + 1) \<le> (x::nat) \<Longrightarrow> x div 60000 \<noteq> k"
  using less_eq_div_iff_mult_less_eq [of 60000 "Suc k" x] by (simp add: mult.commute)

lemma minute_before: "x < 60000 * k \<Longrightarrow> (x::nat) div 60000 \<noteq> k"
  using div_less_iff_less_mult [of 60000 x k] by (simp add: mult.commute)

lemma filter_length_le:
  "(\<And>x. P x \<Longrightarrow> Q x) \<Longrightarrow> length (filter P xs) \<le> length (filter Q xs)"
  by (induction xs) auto

lemma window_ok_dispatch:
  assumes "window_ok M (t, rdue, ds, n)" and "t < rdue"
  shows "window_ok M (t, rdue, ds @ [t], Suc n)"
proof -
  obtain c where c: "rdue = 60000 * c" using assms(1) by (auto simp: window_ok_def dvd_def)
  have past: "t div 60000 \<noteq> k" if "60000 * (k + 1) < rdue" for k
  proof -
    have "k + 2 \<le> c" using that unfolding c by simp
    then have "60000 * (k + 2) \<le> rdue" unfolding c by simp
    moreover have "rdue \<le> t + 60000" using assms(1) by (simp add: window_ok_def)
    ultimately have "60000 * (k + 1) \<le> t" by simp
    then show ?thesis by (rule minute_after)
  qed
  show ?thesis using assms past by (simp add: window_ok_def)
qed

lemma window_ok_reset:
  assumes "window_ok M (t, rdue, ds, n)" and "rdue \<le> t" and "n \<le> M"
  shows "window_ok M (t, t + 60000, ds, 0)"
proof -
  have eq: "t = rdue" using assms by (simp add: window_ok_def)
  obtain c where c: "rdue = 60000 * c" using assms(1) by (auto simp: window_ok_def dvd_def)
  have al: "60000 dvd rdue" using assms by (simp add: window_ok_def)
  have before: "\<forall>x\<in>set ds. x < rdue" using assms by (simp add: window_ok_def)
  have cur: "length (filter (\<lambda>x. rdue \<le> x + 60000) ds) \<le> M"
    using assms by (simp add: window_ok_def)
  have none: "filter (\<lambda>x. rdue \<le> x) ds = []"
    using before by (auto simp: filter_empty_conv)
  have past: "length (filter (\<lambda>x. x div 60000 = k) ds) \<le> M" if "60000 * (k + 1) < rdue + 60000" for k
  proof (cases "60000 * (k + 1) < rdue")
    case True
    then show ?thesis using assms(1) by (simp add: window_ok_def)
  next
    case False
    have "k < c" using that unfolding c by simp
    moreover have "c \<le> k + 1" using False unfolding c by simp
    ultimately have d: "rdue = 60000 * k + 60000" unfolding c by simp
    have "length (filter (\<lambda>x. x div 60000 = k) ds) \<le> length (filter (\<lambda>x. rdue \<le> x + 60000) ds)"
    proof (rule filter_length_le)
      fix x :: nat assume "x div 60000 = k"
      then have "60000 * k \<le> x" by (rule minute_lower)
      then show "rdue \<le> x + 60000" unfolding d by simp
    qed
    then show ?thesis using cur by simp
  qed
  have before': "\<forall>x\<in>set ds. x < rdue + 60000" using before by auto
  show ?thesis unfolding eq using al before' none past by (simp add: window_ok_def)
qed

lemma window_ok_final:
  assumes "window_ok M (t, rdue, ds, n)" and "n \<le> M"
  shows "length (filter (\<lambda>x. x div 60000 = k) ds) \<le> M"
proof -
  obtain c where c: "rdue = 60000 * c" using assms(1) by (auto simp: window_ok_def dvd_def)
  have before: "\<forall>x\<in>set ds. x < rdue" using assms by (simp add: window_ok_def)
  consider "60000 * (k + 1) < rdue" | "60000 * (k + 1) = rdue" | "rdue < 60000 * (k + 1)"
    by linarith
  then show ?thesis
  proof cases
    case 1
    then show ?thesis using assms(1) by (simp add: window_ok_def)
  next
    case 2
    have "length (filter (\<lambda>x. x div 60000 = k) ds) \<le> length (filter (\<lambda>x. rdue \<le> x + 60000) ds)"
    proof (rule filter_length_le)
      fix x :: nat assume "x div 60000 = k"
      then have "60000 * k \<le> x" by (rule minute_lower)
      then show "rdue \<le> x + 60000" unfolding 2 [symmetric] by simp
    qed
    moreover have "length (filter (\<lambda>x. rdue \<le> x + 60000) ds) \<le> n"
      using assms(1) by (simp add: window_ok_def)
    ultimately show ?thesis using assms(2) by simp
  next
    case 3
    then have "c \<le> k" unfolding c by simp
    then have "rdue \<le> 60000 * k" unfolding c by simp
    then have "\<forall>x\<in>set ds. x div 60000 \<noteq> k"
      using before minute_before [of _ k] by fastforce
    then have "filter (\<lambda>x. x div 60000 = k) ds = []"
      by (simp add: filter_empty_conv)
    then show ?thesis by simp
  qed
qed

lemma next_minute_aligned: "60000 dvd t0 + nextMinuteMs t0"
proof -
  have "t0 mod 60000 \<le> t0" by (rule mod_less_eq_dividend)
  moreover have "t0 mod 60000 < 60000" by simp
  ultimately have "t0 + (60000 - t0 mod 60000) = (t0 - t0 mod 60000) + 60000" by linarith
  also have "\<dots> = 60000 * (t0 div 60000) + 60000" by (simp only: minus_mod_eq_mult_div)
  finally show ?thesis by (simp add: nextMinuteMs_def)
qed

lemma window_inv_new: "window_inv M (new_queue cfg t0 rs)"
  using next_minute_aligned [of t0]
  by (simp add: window_inv_def clock_view_def window_ok_def new_queue_def nextMinuteMs_def)

lemma window_inv_step:
  assumes "window_inv (messagesPerMinute (config s)) s" and "budget_inv s" and "on_time s e"
  shows "window_inv (messagesPerMinute (config s)) (step s e)"
proof (cases e)
  case (Advance d)
  have "clock_view (s\<lparr>now := now s + d\<rparr>) = (now s + d, minuteResetDue s,
      dispatch_times (trace s), dispatched_since_reset (trace s))"
    by (simp add: clock_view_def)
  then show ?thesis
    using assms Advance window_ok_advance [of _ "now s" "minuteResetDue s" _ _ d]
    by (simp add: window_inv_def clock_view_def)
next
  case (Enqueue j f)
  then show ?thesis using assms(1) by (simp add: window_inv_def)
next
  case Clear
  then show ?thesis using assms(1) by (simp add: window_inv_def)
next
  case Resume
  then show ?thesis
    using assms window_ok_dispatch [of _ "now s" "minuteResetDue s"]
    by (simp add: window_inv_def clock_view_resume) (simp add: clock_view_def)
next
  case MinuteTimer
  have "dispatched_since_reset (trace s) \<le> messagesPerMinute (config s)"
    using assms(2) pc_budget_bound by (auto simp: budget_inv_def queue_ok_def)
  then show ?thesis
    using assms MinuteTimer window_ok_reset [of _ "now s" "minuteResetDue s"]
    by (simp add: window_inv_def clock_view_minuteTimer) (simp add: clock_view_def)
next
  case DayTimer
  then show ?thesis using assms(1) by (simp add: window_inv_def)
qed

lemma window_inv_run:
  "window_inv (messagesPerMinute (config s)) s \<Longrightarrow> budget_inv s \<Longrightarrow> list_all resolves evs
     \<Longrightarrow> punctual s evs \<Longrightarrow> window_inv (messagesPerMinute (config s)) (run s evs)"
proof (induction evs arbitrary: s)
  case Nil
  then show ?case by (simp add: run_def)
next
  case (Cons e evs)
  have "window_inv (messagesPerMinute (config (step s e))) (run (step s e) evs)"
  proof (rule Cons.IH)
    show "window_inv (messagesPerMinute (config (step s e))) (step s e)"
      using Cons.prems by (simp add: window_inv_step config_step)
    show "budget_inv (step s e)" using Cons.prems by (simp add: budget_inv_step)
    show "list_all resolves evs" using Cons.prems by simp
    show "punctual (step s e) evs" using Cons.prems by simp
  qed
  then show ?case by (simp add: run_def config_step)
qed


subsection \<open>Claims about the queue\<close>

lemma straddle_log:
  "trace (run (new_queue cfg2 57000 halves) straddle) =
     [Dispatched 0 ''a'' 58900, Resolved 0 ''a'' 58900 ''1'', MinuteReset,
      Dispatched 1 ''b'' 60800, Resolved 1 ''b'' 60800 ''2'',
      Dispatched 2 ''c'' 62700, Resolved 2 ''c'' 62700 ''3'']"
  by (simp add: qdefs straddle_def five_tasks_def halves_def)

lemma late_reset_log:
  "trace (run (new_queue cfg2 59000 halves) late_reset) =
     [Dispatched 0 ''a'' 60900, Resolved 0 ''a'' 60900 ''1'',
      Dispatched 1 ''b'' 62800, Resolved 1 ''b'' 62800 ''2'', MinuteReset,
      Dispatched 2 ''c'' 64700]"
  by (simp add: qdefs late_reset_def halves_def)

lemma straddle_punctual: "punctual (new_queue cfg2 57000 halves) straddle"
  by (simp add: qdefs straddle_def five_tasks_def halves_def)

lemma straddle_resolves: "list_all resolves straddle"
  by (simp add: straddle_def five_tasks_def)

text \<open>
  C3, as stated, fails: with \<open>messagesPerMinute = 2\<close> and five instantly resolving
  tasks enqueued at 57000, three operations are invoked in the rolling 60-second window
  that starts at 58900 (at 58900, 60800 and 62700), because the counter is reset at
  the minute boundary 60000. The budget is not kept per wall-clock minute either when
  the reset timer fires late: when the reset due at 60000 fires only at 62800, three
  operations are invoked in the minute from 60000 to 120000 (at 60900, 62800 and 64700).
\<close>

theorem rolling_window_counterexample:
  "messagesPerMinute cfg2 = 2
   \<and> rolling_count 58900 (trace (run (new_queue cfg2 57000 halves) straddle)) = 3
   \<and> minute_count 1 (trace (run (new_queue cfg2 59000 halves) late_reset)) = 3
   \<and> \<not> punctual (new_queue cfg2 59000 halves) late_reset"
proof -
  have a: "messagesPerMinute cfg2 = 2" by (simp add: cfg2_def DEFAULT_CONFIG_def)
  have b: "rolling_count 58900 (trace (run (new_queue cfg2 57000 halves) straddle)) = 3"
    by (simp add: straddle_log rolling_count_def in_window_def)
  have c: "minute_count 1 (trace (run (new_queue cfg2 59000 halves) late_reset)) = 3"
    by (simp add: late_reset_log minute_count_def)
  have d: "\<not> punctual (new_queue cfg2 59000 halves) late_reset"
    by (simp add: qdefs late_reset_def halves_def)
  show ?thesis using a b c d by simp
qed

text \<open>
  C3, amended: in every run in which every enqueued operation resolves and the timer
  that resets the per-minute counter fires exactly when it is due (first at the next
  minute boundary after the queue is constructed, then every 60 seconds, and before the
  drain loop is resumed at that instant), whatever the configuration, the number of
  operations invoked in any wall-clock minute \<open>[60000 * k, 60000 * (k + 1))\<close> never
  exceeds \<open>messagesPerMinute\<close>. The budget holds per fixed window of 60 seconds aligned
  to the minute boundary, not per rolling window.
\<close>

theorem minute_budget_per_wall_clock_minute:
  assumes "list_all resolves evs" and "punctual (new_queue cfg t0 rs) evs"
  shows "minute_count k (trace (run (new_queue cfg t0 rs) evs)) \<le> messagesPerMinute cfg"
proof -
  let ?s = "new_queue cfg t0 rs"
  have cfg: "config ?s = cfg" by (simp add: new_queue_def)
  have w: "window_inv (messagesPerMinute cfg) (run ?s evs)"
    using window_inv_run [of ?s evs] assms window_inv_new [of _ cfg t0 rs] budget_inv_new [of cfg t0 rs]
    by (simp add: cfg)
  have b: "budget_inv (run ?s evs)"
    using budget_inv_run [of ?s evs] budget_inv_new [of cfg t0 rs] assms(1)
    by (simp add: list_all_iff)
  have "dispatched_since_reset (trace (run ?s evs)) \<le> messagesPerMinute cfg"
    using b pc_budget_bound by (auto simp: budget_inv_def queue_ok_def config_run cfg)
  then show ?thesis
    using w window_ok_final [of "messagesPerMinute cfg" "now (run ?s evs)" "minuteResetDue (run ?s evs)"]
    by (simp add: window_inv_def clock_view_def minute_count_def)
qed

theorem minute_budget_per_wall_clock_minute_witness:
  "list_all resolves straddle
   \<and> punctual (new_queue cfg2 57000 halves) straddle
   \<and> minute_count 0 (trace (run (new_queue cfg2 57000 halves) straddle)) = 1
   \<and> minute_count 1 (trace (run (new_queue cfg2 57000 halves) straddle)) = 2
   \<and> minute_count 1 (trace (run (new_queue cfg2 57000 halves) straddle)) \<le> messagesPerMinute cfg2"
  using minute_budget_per_wall_clock_minute [OF straddle_resolves straddle_punctual, of 1]
  by (simp add: straddle_resolves straddle_punctual) (simp add: straddle_log minute_count_def)

text \<open>
  Between two firings of the reset timer, whenever they happen, the number of
  operations invoked never exceeds \<open>messagesPerMinute\<close>.
\<close>

lemma budget_between_resets:
  assumes "list_all resolves evs"
  shows "dispatched_since_reset (trace (run (new_queue cfg t0 rs) evs)) \<le> messagesPerMinute cfg"
proof -
  let ?s = "run (new_queue cfg t0 rs) evs"
  have "\<forall>e\<in>set evs. resolves e" using assms by (simp add: list_all_iff)
  then have inv: "budget_inv ?s" by (simp add: budget_inv_run budget_inv_new)
  have cfg: "config ?s = cfg" by (simp add: new_queue_def)
  have le: "sentThisMinute ?s \<le> messagesPerMinute cfg"
    using inv cfg by (simp add: budget_inv_def queue_ok_def)
  have pcb: "pc_budget (messagesPerMinute cfg) (sentThisMinute ?s)
      (dispatched_since_reset (trace ?s)) (pc ?s)"
    using inv cfg by (simp add: budget_inv_def)
  show ?thesis by (rule pc_budget_bound [OF le pcb])
qed

lemma head_sleeping_state:
  "pc head_sleeping = SleepDelay \<lparr>jid = ''a'', fn = Inr ''1'', handle = 0, enqueuedAt = 57000\<rparr> 58900"
  "trace head_sleeping = []"
  "map handle (queue head_sleeping) = [1, 2, 3, 4]"
  "now head_sleeping = 57000"
  by (simp_all add: head_sleeping_def qdefs five_tasks_def halves_def)

lemma one_in_flight_state:
  "pc one_in_flight = AwaitFn \<lparr>jid = ''a'', fn = Inr ''1'', handle = 0, enqueuedAt = 57000\<rparr> 58900"
  "trace one_in_flight = [Dispatched 0 ''a'' 58900]"
  "map handle (queue one_in_flight) = [1, 2, 3, 4]"
  by (simp_all add: one_in_flight_def qdefs five_tasks_def halves_def)

text \<open>
  C7, as stated, fails: \<open>clear()\<close> does not reject every task that has not been
  dispatched. Five tasks are enqueued at 57000; the drain loop has shifted the first one
  off the queue and waits for its delay, so no operation has been invoked yet. Then
  \<open>clear()\<close> rejects the tasks 1 to 4 only, and the operation of task 0 is invoked
  at 58900, after the queue was cleared.
\<close>

theorem clear_spares_sleeping_head:
  "pc head_sleeping = SleepDelay \<lparr>jid = ''a'', fn = Inr ''1'', handle = 0, enqueuedAt = 57000\<rparr> 58900
   \<and> trace head_sleeping = []
   \<and> trace (clear head_sleeping) =
       [Rejected 1 QueueCleared, Rejected 2 QueueCleared, Rejected 3 QueueCleared, Rejected 4 QueueCleared]
   \<and> trace (run (clear head_sleeping) [Advance 1900, Resume]) =
       [Rejected 1 QueueCleared, Rejected 2 QueueCleared, Rejected 3 QueueCleared, Rejected 4 QueueCleared,
        Dispatched 0 ''a'' 58900]"
proof -
  have m: "map (\<lambda>t. Rejected (handle t) QueueCleared) (queue head_sleeping) =
      map (\<lambda>h. Rejected h QueueCleared) (map handle (queue head_sleeping))"
    by (simp add: comp_def)
  have c: "trace (clear head_sleeping) =
      [Rejected 1 QueueCleared, Rejected 2 QueueCleared, Rejected 3 QueueCleared, Rejected 4 QueueCleared]"
    unfolding clear_def by (simp add: m head_sleeping_state)
  have p: "pc (clear head_sleeping) = pc head_sleeping" "now (clear head_sleeping) = now head_sleeping"
    by (simp_all add: clear_def)
  have r: "trace (run (clear head_sleeping) [Advance 1900, Resume]) =
      trace (clear head_sleeping) @ [Dispatched 0 ''a'' 58900]"
    by (simp add: run_def resume_def p head_sleeping_state)
  show ?thesis by (simp add: r c head_sleeping_state)
qed

text \<open>
  C7, amended: \<open>clear()\<close> rejects every task still in the queue with the error
  \<open>Queue cleared\<close> and leaves the queue depth at 0. The task the drain loop has
  already shifted off the queue is not touched (the loop's position is unchanged): if
  its operation is running, its handle is resolved or rejected by the operation's
  outcome when it settles; if it still waits for its delay, its operation is invoked
  when the delay is over; if it still waits for the spacing of its recipient, it goes on
  to its delay.
\<close>

theorem clear_rejects_queued_only:
  "trace (clear s) = trace s @ map (\<lambda>t. Rejected (handle t) QueueCleared) (queue s)
   \<and> queueDepth (clear s) = 0
   \<and> pc (clear s) = pc s
   \<and> (\<forall>t d. pc s = AwaitFn t d \<longrightarrow>
         pc (resume (clear s)) = Idle \<and>
         trace (resume (clear s)) = trace (clear s) @
           [case fn t of Inr v \<Rightarrow> Resolved (handle t) (jid t) d v
                       | Inl e \<Rightarrow> Rejected (handle t) (OpFailed e)])
   \<and> (\<forall>t w. pc s = SleepDelay t w \<and> w \<le> now s \<longrightarrow>
         pc (resume (clear s)) = AwaitFn t (now s) \<and>
         trace (resume (clear s)) = trace (clear s) @ [Dispatched (handle t) (jid t) (now s)])
   \<and> (\<forall>t w. pc s = SleepRecipient t w \<and> w \<le> now s \<longrightarrow>
         pc (resume (clear s)) = SleepDelay t (now s + fst (randomDelay (config s) (rands s))) \<and>
         trace (resume (clear s)) = trace (clear s))"
  by (auto simp: clear_def queueDepth_def resume_def settle_def process_loop_def start_delay_def
      split: sum.splits prod.splits)

theorem clear_rejects_queued_only_witness:
  "pc one_in_flight = AwaitFn \<lparr>jid = ''a'', fn = Inr ''1'', handle = 0, enqueuedAt = 57000\<rparr> 58900
   \<and> queueDepth one_in_flight = 4
   \<and> queueDepth (clear one_in_flight) = 0
   \<and> trace (resume (clear one_in_flight)) =
       [Dispatched 0 ''a'' 58900, Rejected 1 QueueCleared, Rejected 2 QueueCleared,
        Rejected 3 QueueCleared, Rejected 4 QueueCleared, Resolved 0 ''a'' 58900 ''1'']"
proof -
  have m: "map (\<lambda>t. Rejected (handle t) QueueCleared) (queue one_in_flight) =
      map (\<lambda>h. Rejected h QueueCleared) (map handle (queue one_in_flight))"
    by (simp add: comp_def)
  have d: "queueDepth one_in_flight = length (map handle (queue one_in_flight))"
    by (simp add: queueDepth_def)
  show ?thesis
    using clear_rejects_queued_only [of one_in_flight]
    unfolding m d by (simp add: one_in_flight_state)
qed

lemma same_recipient_trace:
  "trace (run (new_queue cfg2 57000 halves) same_recipient) =
     [] @ Dispatched 0 ''a'' 58900 # [Resolved 0 ''a'' 58900 ''1''] @ Dispatched 1 ''a'' 62800 # []"
  by (simp add: qdefs same_recipient_def halves_def)

text \<open>
  C9: in every run of a queue, when an operation for recipient \<open>j\<close> is invoked at
  \<open>t1\<close> and is not rejected, and a later operation for the same recipient (so also
  that of the task enqueued right behind it) is invoked at \<open>t2\<close>, then the first
  task was resolved in between and \<open>t1 + perRecipientDelayMs \<le> t2\<close>.
\<close>

theorem per_recipient_spacing:
  assumes "trace (run (new_queue cfg t0 rs) evs) =
             xs @ Dispatched h j t1 # ys @ Dispatched h' j t2 # zs"
    and "\<forall>e. Rejected h (OpFailed e) \<notin> set ys"
  shows "(\<exists>v. Resolved h j t1 v \<in> set ys) \<and> t1 + perRecipientDelayMs cfg \<le> t2"
proof -
  let ?s = "run (new_queue cfg t0 rs) evs"
  have "flight_inv ?s" by (simp add: flight_inv_run flight_inv_new)
  then have "foldl fly Free (xs @ Dispatched h j t1 # ys @ Dispatched h' j t2 # zs) \<noteq> Broken"
    using flight_inv_not_broken assms(1) by metis
  then obtain v where v: "Resolved h j t1 v \<in> set ys"
    using settles_between assms(2) by blast
  then obtain ys1 ys2 where ys: "ys = ys1 @ Resolved h j t1 v # ys2"
    by (meson split_list)
  have inv: "spacing_inv ?s" by (simp add: spacing_inv_run spacing_inv_new)
  have cfg: "config ?s = cfg" by (simp add: new_queue_def)
  have "spaced (perRecipientDelayMs cfg)
      ((xs @ Dispatched h j t1 # ys1) @ Resolved h j t1 v # (ys2 @ Dispatched h' j t2 # zs))"
    using inv assms(1) cfg ys by (simp add: spacing_inv_def loop_inv_def)
  then have "spaced (perRecipientDelayMs cfg) (Resolved h j t1 v # (ys2 @ Dispatched h' j t2 # zs))"
    by (rule spaced_append_tail)
  then have "t1 + perRecipientDelayMs cfg \<le> t2" by simp
  with v show ?thesis by blast
qed

theorem per_recipient_spacing_witness:
  "trace (run (new_queue cfg2 57000 halves) same_recipient) =
     [] @ Dispatched 0 ''a'' 58900 # [Resolved 0 ''a'' 58900 ''1''] @ Dispatched 1 ''a'' 62800 # []
   \<and> (\<forall>e. Rejected 0 (OpFailed e) \<notin> set [Resolved 0 ''a'' 58900 ''1''])
   \<and> perRecipientDelayMs cfg2 = 2000
   \<and> 58900 + perRecipientDelayMs cfg2 \<le> (62800::nat)"
proof -
  have m: "\<forall>e. Rejected 0 (OpFailed e) \<notin> set [Resolved 0 ''a'' 58900 ''1'']" by simp
  have c: "perRecipientDelayMs cfg2 = 2000" by (simp add: cfg2_def DEFAULT_CONFIG_def)
  show ?thesis
    using per_recipient_spacing [OF same_recipient_trace m] same_recipient_trace m c by simp
qed

lemma failing_in_flight_state:
  "pc failing_in_flight =
     AwaitFn \<lparr>jid = ''a'', fn = Inl ''boom'', handle = 0, enqueuedAt = 57000\<rparr> 58900"
  "queue failing_in_flight = [\<lparr>jid = ''b'', fn = Inr ''2'', handle = 1, enqueuedAt = 57000\<rparr>]"
  "trace failing_in_flight = [Dispatched 0 ''a'' 58900]"
  "sentThisMinute failing_in_flight = 0" "sentToday failing_in_flight = 0"
  "config failing_in_flight = cfg2"
  by (simp_all add: failing_in_flight_def qdefs halves_def)

text \<open>
  C10: when the operation of the task in flight rejects, \<open>sentThisMinute\<close>,
  \<open>sentToday\<close> and the table \<open>lastSentAt\<close> are as before, the next observation is
  the rejection of the task's handle with the operation's error, the loop stays alive
  while tasks are queued and, when both budgets allow it, takes the next task off the
  queue.
\<close>

theorem failed_operation_leaves_state:
  assumes "pc s = AwaitFn t d" and "fn t = Inl e"
  shows "sentThisMinute (resume s) = sentThisMinute s
     \<and> sentToday (resume s) = sentToday s
     \<and> lastSentAt (resume s) = lastSentAt s
     \<and> take (Suc (length (trace s))) (trace (resume s)) = trace s @ [Rejected (handle t) (OpFailed e)]
     \<and> (queue s \<noteq> [] \<longrightarrow> pc (resume s) \<noteq> Idle)
     \<and> (\<forall>t' rest. queue s = t' # rest \<and> sentToday s < messagesPerDay (config s)
            \<and> sentThisMinute s < messagesPerMinute (config s) \<longrightarrow>
          queue (resume s) = rest \<and>
          (\<exists>w. pc (resume s) = SleepRecipient t' w \<or> pc (resume s) = SleepDelay t' w))"
proof -
  define s' where "s' = s\<lparr>trace := trace s @ [Rejected (handle t) (OpFailed e)]\<rparr>"
  have r: "resume s = process_loop s'"
    using assms by (simp add: resume_def settle_def s'_def)
  have "take (Suc (length (trace s))) (trace (process_loop s')) = trace s @ [Rejected (handle t) (OpFailed e)]"
    using process_loop_log [of s'] by (auto simp: s'_def)
  moreover have "queue s \<noteq> [] \<longrightarrow> pc (process_loop s') \<noteq> Idle"
    using process_loop_busy [of s'] by (simp add: s'_def)
  moreover have "\<forall>t' rest. queue s = t' # rest \<and> sentToday s < messagesPerDay (config s)
            \<and> sentThisMinute s < messagesPerMinute (config s) \<longrightarrow>
          queue (process_loop s') = rest \<and>
          (\<exists>w. pc (process_loop s') = SleepRecipient t' w \<or> pc (process_loop s') = SleepDelay t' w)"
    using process_loop_takes_head [of s'] by (simp add: s'_def)
  ultimately show ?thesis unfolding r by (simp add: s'_def)
qed

theorem failed_operation_leaves_state_witness:
  "pc failing_in_flight =
     AwaitFn \<lparr>jid = ''a'', fn = Inl ''boom'', handle = 0, enqueuedAt = 57000\<rparr> 58900
   \<and> fn \<lparr>jid = ''a'', fn = Inl ''boom'', handle = 0, enqueuedAt = 57000\<rparr> = Inl ''boom''
   \<and> queue failing_in_flight = [\<lparr>jid = ''b'', fn = Inr ''2'', handle = 1, enqueuedAt = 57000\<rparr>]
   \<and> sentToday failing_in_flight < messagesPerDay (config failing_in_flight)
   \<and> sentThisMinute failing_in_flight < messagesPerMinute (config failing_in_flight)
   \<and> sentThisMinute (resume failing_in_flight) = 0
   \<and> sentToday (resume failing_in_flight) = 0
   \<and> take 2 (trace (resume failing_in_flight)) = [Dispatched 0 ''a'' 58900, Rejected 0 (OpFailed ''boom'')]
   \<and> queue (resume failing_in_flight) = []
   \<and> pc (resume failing_in_flight) \<noteq> Idle"
proof -
  have f: "fn \<lparr>jid = ''a'', fn = Inl ''boom'', handle = 0, enqueuedAt = 57000\<rparr> = Inl ''boom''"
    by simp
  have b: "sentToday failing_in_flight < messagesPerDay (config failing_in_flight)"
    "sentThisMinute failing_in_flight < messagesPerMinute (config failing_in_flight)"
    by (simp_all add: failing_in_flight_state cfg2_def DEFAULT_CONFIG_def)
  show ?thesis
    using failed_operation_leaves_state [OF failing_in_flight_state(1) f] b
    by (simp add: failing_in_flight_state numeral_2_eq_2)
qed

section \<open>Properties of the WebhookBridge\<close>

lemma sendWithRetry_fails:
  assumes "always_fails env" "attempt + n = (case retries cfg of None \<Rightarrow> 3 | Some r \<Rightarrow> r)"
  shows "fst (sendWithRetry cfg event env attempt) =
           failing_actions (case retryDelayMs cfg of None \<Rightarrow> 1000 | Some d \<Rightarrow> d) attempt n
       \<and> (\<exists>err. snd (sendWithRetry cfg event env attempt) = Inl err)"
  using assms(2)
proof (induction n arbitrary: attempt)
  case 0
  obtain err where "httpPost (env attempt) = Inl err"
    using assms(1) unfolding always_fails_def by blast
  then show ?case using 0 by (subst (1 2) sendWithRetry.simps) simp
next
  case (Suc n)
  obtain err where "httpPost (env attempt) = Inl err"
    using assms(1) unfolding always_fails_def by blast
  moreover have "Suc attempt + n = (case retries cfg of None \<Rightarrow> 3 | Some r \<Rightarrow> r)"
    using Suc.prems by simp
  ultimately show ?case using Suc.IH [of "Suc attempt"] Suc.prems
    by (subst (1 2) sendWithRetry.simps) (simp add: Let_def)
qed

lemma deliver_fails:
  assumes "always_fails env" "onError cfg"
  shows "\<exists>err. deliver cfg event env =
    failing_actions (retryDelayMs_or_default cfg) 0 (retries_or_default cfg) @ [ErrorCb event err]"
proof -
  from sendWithRetry_fails [OF assms(1), of 0 "retries_or_default cfg" cfg event]
  obtain err where
    "fst (sendWithRetry cfg event env 0) =
       failing_actions (retryDelayMs_or_default cfg) 0 (retries_or_default cfg)"
    "snd (sendWithRetry cfg event env 0) = Inl err"
    by (auto simp: retries_or_default_def retryDelayMs_or_default_def)
  then show ?thesis using assms(2)
    by (cases "sendWithRetry cfg event env 0") (auto simp: deliver_def)
qed

lemma posts_failing: "posts (failing_actions d k n) = [k..<Suc (k + n)]"
  by (induction n arbitrary: k) (simp_all add: upt_rec)

lemma waits_failing: "waits (failing_actions d k n) = map (\<lambda>i. d * 2 ^ i) [k..<k + n]"
  by (induction n arbitrary: k) (simp_all add: upt_rec)

lemma error_calls_failing: "error_calls (failing_actions d k n) = 0"
  by (induction n arbitrary: k) simp_all

lemma posts_append: "posts (xs @ ys) = posts xs @ posts ys"
  by (induction xs rule: posts.induct) simp_all

lemma waits_append: "waits (xs @ ys) = waits xs @ waits ys"
  by (induction xs rule: waits.induct) simp_all

lemma error_calls_append: "error_calls (xs @ ys) = error_calls xs + error_calls ys"
  by (induction xs rule: error_calls.induct) simp_all

lemma sorted_pow: "0 < (d::nat) \<Longrightarrow> sorted_wrt (<) (map (\<lambda>i. d * 2 ^ i) [k..<k + n])"
  by (simp add: sorted_wrt_map sorted_wrt_iff_nth_less)

lemma dispatch_delivers:
  assumes "(i, cfg) \<in> set configs" and "event \<in> set (events_or_default cfg)"
  shows "(i, deliver cfg event (env i)) \<in> set (dispatch configs event env)"
proof -
  have "(i, cfg) \<in> set (filter (\<lambda>(i, cfg). event \<in> set (case events cfg of None \<Rightarrow> DEFAULT_EVENTS
      | Some es \<Rightarrow> es)) configs)"
    using assms by (simp add: events_or_default_def)
  then show ?thesis unfolding dispatch_def by force
qed

lemma always_fails_timing_out: "always_fails timing_out"
  by (simp add: always_fails_def timing_out_def)

text \<open>
  C8, as stated, fails: with \<open>retryDelayMs = 0\<close> and \<open>retries = 3\<close>, on a
  transport where every request times out, the three delays between the four attempts
  are all 0, so they are not strictly increasing.
\<close>

theorem zero_delay_counterexample:
  "waits (deliver zero_delay ''call'' timing_out) = [0, 0, 0]
   \<and> \<not> sorted_wrt (<) (waits (deliver zero_delay ''call'' timing_out))"
proof -
  have o: "onError zero_delay" by (simp add: zero_delay_def)
  obtain err where "deliver zero_delay ''call'' timing_out =
      failing_actions (retryDelayMs_or_default zero_delay) 0 (retries_or_default zero_delay)
        @ [ErrorCb ''call'' err]"
    using deliver_fails [OF always_fails_timing_out o] by blast
  then have "waits (deliver zero_delay ''call'' timing_out) = [0, 0, 0]"
    by (simp add: waits_append waits_failing retries_or_default_def retryDelayMs_or_default_def
        zero_delay_def upt_rec)
  then show ?thesis by simp
qed

text \<open>
  C8, amended: for an endpoint with \<open>retryDelayMs > 0\<close> and an \<open>onError\<close>
  callback that is subscribed to the event, on a transport where every request to it
  fails, \<open>_dispatch\<close> starts a delivery for it, and that delivery is the sequence
  attempt 0, wait, attempt 1, wait, ..., attempt \<open>retries\<close>, then one call of
  \<open>onError\<close>: \<open>retries + 1\<close> attempts one after the other, the wait after
  attempt \<open>k\<close> being \<open>retryDelayMs * 2 ^ k\<close>, which is strictly increasing, and
  \<open>onError\<close> is called exactly once, at the end.
\<close>

theorem failing_endpoint_retries:
  assumes "always_fails (env i)" and "0 < retryDelayMs_or_default cfg" and "onError cfg"
    and "(i, cfg) \<in> set configs" and "event \<in> set (events_or_default cfg)"
  shows "(i, deliver cfg event (env i)) \<in> set (dispatch configs event env)
     \<and> (\<exists>err. deliver cfg event (env i) =
            failing_actions (retryDelayMs_or_default cfg) 0 (retries_or_default cfg)
              @ [ErrorCb event err])
     \<and> posts (deliver cfg event (env i)) = [0..<retries_or_default cfg + 1]
     \<and> length (posts (deliver cfg event (env i))) = retries_or_default cfg + 1
     \<and> waits (deliver cfg event (env i)) =
         map (\<lambda>k. retryDelayMs_or_default cfg * 2 ^ k) [0..<retries_or_default cfg]
     \<and> sorted_wrt (<) (waits (deliver cfg event (env i)))
     \<and> error_calls (deliver cfg event (env i)) = 1"
proof -
  obtain err where d: "deliver cfg event (env i) =
      failing_actions (retryDelayMs_or_default cfg) 0 (retries_or_default cfg) @ [ErrorCb event err]"
    using deliver_fails [OF assms(1,3)] by blast
  have w: "waits (deliver cfg event (env i)) =
      map (\<lambda>k. retryDelayMs_or_default cfg * 2 ^ k) [0..<0 + retries_or_default cfg]"
    unfolding d by (simp add: waits_append waits_failing)
  have "sorted_wrt (<) (waits (deliver cfg event (env i)))"
    unfolding w using assms(2) by (rule sorted_pow)
  moreover have "posts (deliver cfg event (env i)) = [0..<retries_or_default cfg + 1]"
    unfolding d by (simp add: posts_append posts_failing)
  moreover have "error_calls (deliver cfg event (env i)) = 1"
    unfolding d by (simp add: error_calls_append error_calls_failing)
  ultimately show ?thesis using d w dispatch_delivers [OF assms(4,5), of env] by simp
qed

theorem failing_endpoint_retries_witness:
  "always_fails timing_out \<and> 0 < retryDelayMs_or_default default_delay \<and> onError default_delay
   \<and> ''call'' \<in> set (events_or_default default_delay)
   \<and> dispatch [(''hook'', default_delay)] ''call'' (\<lambda>i. timing_out) =
        [(''hook'', deliver default_delay ''call'' timing_out)]
   \<and> posts (deliver default_delay ''call'' timing_out) = [0, 1, 2, 3]
   \<and> waits (deliver default_delay ''call'' timing_out) = [1000, 2000, 4000]
   \<and> error_calls (deliver default_delay ''call'' timing_out) = 1"
proof -
  have p: "0 < retryDelayMs_or_default default_delay" "onError default_delay"
    by (simp_all add: retryDelayMs_or_default_def default_delay_def)
  have m: "(''hook'', default_delay) \<in> set [(''hook'', default_delay)]" by simp
  have e: "''call'' \<in> set (events_or_default default_delay)"
    by (simp add: events_or_default_def default_delay_def DEFAULT_EVENTS_def)
  have r: "retries_or_default default_delay = 3" "retryDelayMs_or_default default_delay = 1000"
    by (simp_all add: retries_or_default_def retryDelayMs_or_default_def default_delay_def)
  have d: "dispatch [(''hook'', default_delay)] ''call'' (\<lambda>i. timing_out) =
        [(''hook'', deliver default_delay ''call'' timing_out)]"
    using e by (simp add: dispatch_def events_or_default_def)
  show ?thesis
    using failing_endpoint_retries [of "\<lambda>i. timing_out" "''hook''", OF always_fails_timing_out p m e]
      always_fails_timing_out p e d
    by (simp add: r upt_rec)
qed

section \<open>Properties of the SessionManager\<close>

subsection \<open>What the emitters and the handler's blocks change\<close>

lemma list_ex_False [simp]: "list_ex (\<lambda>w. False) ws = False"
  by (induction ws) simp_all

lemma emit_status_quiet:
  "status v \<noteq> LoggedOut \<Longrightarrow> emit_status v s = s\<lparr> emitted := emitted s @ [session_status v] \<rparr>"
  by (simp add: emit_status_def clear_timers_def Let_def)

lemma emit_status_fields [simp]:
  "heap (emit_status v s) = heap s" "sessions (emit_status v s) = sessions s"
  "reconnectAttempts (emit_status v s) = reconnectAttempts s" "sm_config (emit_status v s) = sm_config s"
  "clock (emit_status v s) = clock s" "nextTimer (emit_status v s) = nextTimer s"
  "socks (emit_status v s) = socks s" "boots (emit_status v s) = boots s"
  by (simp_all add: emit_status_def Let_def)


lemma emit_connected_fields [simp]:
  "heap (emit_connected i p s) = heap s" "sessions (emit_connected i p s) = sessions s"
  "reconnectAttempts (emit_connected i p s) = reconnectAttempts s"
  "sm_config (emit_connected i p s) = sm_config s"
  "clock (emit_connected i p s) = clock s" "nextTimer (emit_connected i p s) = nextTimer s"
  "socks (emit_connected i p s) = socks s" "boots (emit_connected i p s) = boots s"
  by (simp_all add: emit_connected_def Let_def)


lemma updateStatus_fields [simp]:
  "heap (updateStatus i r s) = heap s"
  "reconnectAttempts (updateStatus i r s) = reconnectAttempts s"
  "sm_config (updateStatus i r s) = sm_config s"
  "clock (updateStatus i r s) = clock s" "nextTimer (updateStatus i r s) = nextTimer s"
  "socks (updateStatus i r s) = socks s" "boots (updateStatus i r s) = boots s"
  by (simp_all add: updateStatus_def Let_def split: option.splits)

lemma updateStatus_hasSession [simp]: "hasSession i' (updateStatus i r s) = hasSession i' s"
  by (auto simp: updateStatus_def hasSession_def Let_def update_conv' split: option.splits)


lemma updateStatus_timers_quiet:
  "status (heap s r) \<noteq> LoggedOut \<Longrightarrow> timers (updateStatus i r s) = timers s"
  by (simp add: updateStatus_def Let_def emit_status_quiet split: option.splits)



lemma heap_on_open: "status (heap (on_open i r u s) r) = Connected"
  by (simp add: on_open_def Let_def)

lemma heap_on_close:
  "status (heap (on_close i r u s) r) = (if is_loggedOut u then LoggedOut else Disconnected)"
  by (simp add: on_close_def Let_def)

lemma on_qr_timers: "timers (on_qr i r q s) = timers s"
  by (simp add: on_qr_def Let_def updateStatus_timers_quiet)




lemma hasSession_upd [simp]:
  "hasSession i (s\<lparr>heap := h\<rparr>) = hasSession i s"
  "hasSession i (s\<lparr>emitted := e\<rparr>) = hasSession i s"
  "hasSession i (s\<lparr>reconnectAttempts := ra\<rparr>) = hasSession i s"
  "hasSession i (s\<lparr>timers := ts\<rparr>) = hasSession i s"
  by (simp_all add: hasSession_def)

lemma on_qr_fields [simp]:
  "reconnectAttempts (on_qr i r q s) = reconnectAttempts s" "sm_config (on_qr i r q s) = sm_config s"
  "clock (on_qr i r q s) = clock s" "nextTimer (on_qr i r q s) = nextTimer s"
  "hasSession i' (on_qr i r q s) = hasSession i' s" "socks (on_qr i r q s) = socks s"
  by (simp_all add: on_qr_def Let_def)

lemma on_close_schedules:
  assumes "\<not> is_loggedOut u" and "autoReconnect (sm_config s)" and "hasSession i s"
    and "attempt = (case reconnectAttempts s i of None \<Rightarrow> 0 | Some n \<Rightarrow> n) + 1"
    and "attempt \<le> maxReconnectAttempts (sm_config s)"
  shows "timers (on_close i r u s) = timers s @ [(nextTimer s,
           \<lparr> due = of_nat (clock s) + of_nat (reconnectDelayMs (sm_config s)) * backoffMultiplier ^ (attempt - 1),
             delay_ms = of_nat (reconnectDelayMs (sm_config s)) * backoffMultiplier ^ (attempt - 1),
             action = Reboot i \<rparr>)]
     \<and> reconnectAttempts (on_close i r u s) i = Some attempt"
  using assms by (simp add: on_close_def Let_def updateStatus_timers_quiet)

lemma boot_registered:
  assumes "map_of (sessions s) i = Some a" "boot i s = Inr s'"
  shows "heap s' = heap s \<and> getInfo i s' = Some (info a)
     \<and> map_option sock_info (socks s' (nextSock s)) = Some (info a)"
  using assms by (auto simp: boot_def getInfo_def Let_def update_conv' split: if_splits)


lemma destroy_keeps_timers: "destroySession i s = Inr s' \<Longrightarrow> timers s' = timers s"
  by (auto simp: destroySession_def split: option.splits)

subsection \<open>Destroy, shared references and waiting, in any state\<close>

text \<open>
  When a session is destroyed while a timer that reconnects it is pending, the session
  is gone after the destroy and registered again, by one more \<open>_boot\<close>, after the
  timer has fired.
\<close>

lemma destroy_then_timer_boots:
  assumes "destroySession i s = Inr s1" and "map_of (timers s) tid = Some t"
    and "action t = Reboot i" and "due t \<le> of_nat (clock s)" and "i \<notin> set (authBroken s)"
  shows "\<not> hasSession i s1 \<and> hasSession i (fire_timer tid s1)
     \<and> boots (fire_timer tid s1) = boots s @ [i]"
proof -
  from assms(1) obtain a where a: "map_of (sessions s) i = Some a"
    and s1: "s1 = s\<lparr> socks := close_ws (sock a) (socks s),
                  sessions := AList.delete i (sessions s),
                  reconnectAttempts := (reconnectAttempts s)(i := None),
                  emitted := emitted s @ [session_destroyed i] \<rparr>"
    by (auto simp: destroySession_def split: option.splits)
  have gone: "map_of (sessions s1) i = None"
    by (simp add: s1 delete_conv')
  have "\<not> hasSession i s1" using gone by (simp add: hasSession_def)
  moreover have "hasSession i (fire_timer tid s1) \<and> boots (fire_timer tid s1) = boots s @ [i]"
    using assms(2-5) gone
    by (simp add: fire_timer_def boot_def hasSession_def Let_def s1 update_conv' delete_conv')
  ultimately show ?thesis by simp
qed

text \<open>
  When \<open>getInfo\<close> returns the object the socket's handler holds, a QR update on
  that socket changes the object behind the reference.
\<close>

lemma getInfo_shares_handler_object:
  assumes "socks s k = Some x" and "getInfo (sock_session x) s = Some (sock_info x)" and "q \<noteq> []"
  shows "getInfo (sock_session x) (connection_update k (upd_qr q) s) = Some (sock_info x)
     \<and> heap (connection_update k (upd_qr q) s) (sock_info x) =
         (heap s (sock_info x))\<lparr> qr := Some q, status := QrReady \<rparr>"
  using assms
  by (auto simp: connection_update_def upd_qr_def on_qr_def updateStatus_def getInfo_def Let_def
      update_conv' split: option.splits)

text \<open>
  For a session whose status is \<open>logged_out\<close>, \<open>waitForConnected\<close> registers
  its listeners and its timer; when the timer fires after \<open>t\<close> ms the promise is
  rejected with the timeout error.
\<close>

lemma wait_on_logged_out_waits:
  assumes "getInfo i s = Some r" and "status (heap s r) = LoggedOut"
    and "map_of (timers s) (nextTimer s) = None"
  shows "waiters (waitForConnected i t s) = waiters s @
           [\<lparr> w_session = i, w_timeoutMs = t, onConnected = True, onStatus = True,
              w_timer = Some (nextTimer s), w_settled = None \<rparr>]
     \<and> waiters (fire_timer (nextTimer s) (advance t (waitForConnected i t s))) = waiters s @
           [\<lparr> w_session = i, w_timeoutMs = t, onConnected = False, onStatus = False,
              w_timer = None, w_settled = Some (RejectedWith (DidNotConnect i t)) \<rparr>]"
  using assms
  by (simp add: waitForConnected_def fire_timer_def advance_def settled_def Let_def map_of_append
      map_add_def nth_append)

subsection \<open>The concrete runs, step by step\<close>

lemmas sdefs = new_info_def getInfo_def listSessions_def
  hasSession_def settled_def clear_timers_def emit_status_def emit_connected_def updateStatus_def
  boot_def createSession_def close_ws_def destroySession_def waitForConnected_def
  backoffMultiplier_def on_qr_def on_open_def on_close_def connection_update_def fire_timer_def
  advance_def upd_qr_def upd_open_def upd_close_def upd_logout_def is_loggedOut_def
  Let_def pending_actions_def default_manager_config_def

lemmas stdefs = st_created_def st_qr_def st_lost_def st_rebooted_def st_logged_out_def
  info_qr_def info_connected_def info_lost_def info_logged_out_def sock_of_s1_def

lemma step_created: "mstep m0 (CreateSession ''s1'') = st_created"
  by (simp add: sdefs stdefs m0_def new_manager_def)

lemma step_qr: "mstep st_created (Update 0 (upd_qr ''ABC'')) = st_qr"
  by (simp add: sdefs stdefs)

lemma step_lost:
  "mstep (mstep st_qr (Update 0 upd_open)) (Update 0 (upd_close ''Stream Errored'')) = st_lost"
  by (simp add: sdefs stdefs)

lemma step_rebooted: "mstep (mstep st_lost (Tick 3000)) (Fire 0) = st_rebooted"
  by (simp add: sdefs stdefs)

lemma step_logged_out: "mstep st_created (Update 0 upd_logout) = st_logged_out"
  by (simp add: sdefs stdefs)

lemmas run_steps = mrun_def foldl.simps append.simps step_created step_qr step_lost step_rebooted
  step_logged_out

lemma run_created: "mrun m0 [CreateSession ''s1''] = st_created"
  by (simp only: run_steps)

lemma run_qr: "mrun m0 [CreateSession ''s1'', Update 0 (upd_qr ''ABC'')] = st_qr"
  by (simp only: run_steps)

lemma run_timer_pending: "mrun m0 timer_pending = st_lost"
  by (simp only: timer_pending_def run_steps)


lemma run_destroyed: "mrun m0 destroyed_run = mstep st_lost (DestroySession ''s1'')"
  by (simp only: destroyed_run_def timer_pending_def run_steps)

lemma run_zombie:
  "mrun m0 zombie_run = mstep (mstep (mstep st_lost (DestroySession ''s1'')) (Tick 3000)) (Fire 0)"
  by (simp only: zombie_run_def timer_pending_def run_steps)

lemma run_logged_out: "mrun m0 logged_out_run = st_logged_out"
  by (simp only: logged_out_run_def run_steps)

lemma run_waiting: "mrun m0 waiting_run = mstep st_logged_out (WaitForConnected ''s1'' 1000)"
  by (simp only: waiting_run_def logged_out_run_def run_steps)

lemma run_waited:
  "mrun m0 waited_run =
     mstep (mstep (mstep st_logged_out (WaitForConnected ''s1'' 1000)) (Tick 1000)) (Fire 0)"
  by (simp only: waited_run_def logged_out_run_def run_steps)

lemma run_recreated:
  "mrun m0 recreated_run =
     mstep (mstep (mstep (mstep (mstep st_lost (DestroySession ''s1'')) (CreateSession ''s1''))
       (Update 1 upd_open)) (Tick 3000)) (Fire 0)"
  by (simp only: recreated_run_def timer_pending_def run_steps)

subsection \<open>What a step changes for one session\<close>

lemma emit_status_next [simp]:
  "nextRef (emit_status v s) = nextRef s" "nextSock (emit_status v s) = nextSock s"
  by (simp_all add: emit_status_def Let_def)

lemma emit_connected_next [simp]:
  "nextRef (emit_connected i p s) = nextRef s" "nextSock (emit_connected i p s) = nextSock s"
  by (simp_all add: emit_connected_def Let_def)

lemma updateStatus_next [simp]:
  "nextRef (updateStatus i r s) = nextRef s" "nextSock (updateStatus i r s) = nextSock s"
  by (simp_all add: updateStatus_def Let_def split: option.splits)



lemma touch_touch [simp]: "touch j r (touch j r m) = touch j r m"
  by (auto simp: touch_def split: option.splits)












































text \<open>
  The table of the code is the table of the specification without the edge from
  \<open>disconnected\<close> back to \<open>initializing\<close> and with three more edges.
\<close>

lemma code_table_and_spec_table:
  "code_transition a b \<longleftrightarrow>
     (spec_transition a b \<and> (a, b) \<noteq> (Disconnected, Initializing))
     \<or> (a, b) = (Initializing, Connected)
     \<or> (a, b) = (Disconnected, QrReady)
     \<or> (a, b) = (Disconnected, Connected)"
  by (cases a; cases b; simp)

text \<open>The concrete runs are disciplined.\<close>

lemma socks_connection_update [simp]: "socks (connection_update k u s) = socks s"
  by (simp add: connection_update_def on_qr_def on_open_def on_close_def Let_def split: option.splits)

lemma socks_mstep_update: "socks (mstep s (Update k u)) = socks s"
  by simp

lemma socks_mstep_tick: "socks (mstep s (Tick d)) = socks s"
  by (simp add: advance_def)

lemma upd_fields:
  "qr_present (upd_qr q) = (q \<noteq> [])" "connection (upd_qr q) = None"
  "qr_present upd_open = False" "connection upd_open = Some conn_open"
  "qr_present (upd_close m) = False" "connection (upd_close m) = Some conn_close"
  "qr_present upd_logout = False" "connection upd_logout = Some conn_close"
  by (simp_all add: qr_present_def upd_qr_def upd_open_def upd_close_def upd_logout_def)

lemmas ddefs = receivable_def next_phase_def upd_fields socks_mstep_update socks_mstep_tick
  step_created step_qr step_lost step_rebooted step_logged_out





subsection \<open>Claims about the manager\<close>

text \<open>
  C1 fails on the code: \<open>destroySession\<close> does not cancel the reconnect timer.
  In the run below the session is destroyed while its reconnect timer is pending; the
  timer is still pending after the destroy, and when it fires \<open>_boot\<close> runs once
  more and registers the session again.
\<close>

theorem zombie_reconnect_after_destroy:
  "hasSession ''s1'' (mrun m0 timer_pending)
   \<and> pending_actions (mrun m0 timer_pending) = [Reboot ''s1'']
   \<and> \<not> hasSession ''s1'' (mrun m0 destroyed_run)
   \<and> pending_actions (mrun m0 destroyed_run) = [Reboot ''s1'']
   \<and> boots (mrun m0 destroyed_run) = [''s1'']
   \<and> boots (mrun m0 zombie_run) = [''s1'', ''s1'']
   \<and> hasSession ''s1'' (mrun m0 zombie_run)"
  unfolding run_timer_pending run_destroyed run_zombie
  by (simp add: sdefs stdefs)

text \<open>
  C2 fails on the code: \<open>getInfo\<close> and \<open>listSessions\<close> return the reference
  (here 1) of the very object the socket's handler closes over, so the object a caller
  obtained while the status was \<open>initializing\<close> reads \<open>qr_ready\<close> after the next
  update.
\<close>

theorem getInfo_returns_live_object:
  "getInfo ''s1'' (mrun m0 [CreateSession ''s1'']) = Some 1
   \<and> listSessions (mrun m0 [CreateSession ''s1'']) = [1]
   \<and> map_option sock_info (socks (mrun m0 [CreateSession ''s1'']) 0) = Some 1
   \<and> status (heap (mrun m0 [CreateSession ''s1'']) 1) = Initializing
   \<and> status (heap (mrun m0 [CreateSession ''s1'', Update 0 (upd_qr ''ABC'')]) 1) = QrReady
   \<and> qr (heap (mrun m0 [CreateSession ''s1'', Update 0 (upd_qr ''ABC'')]) 1) = Some ''ABC''"
  unfolding run_created run_qr
  by (simp add: sdefs stdefs)




text \<open>
  Both hypotheses are needed. When the session is destroyed while its reconnect timer is
  pending and is created again, the timer's \<open>_boot\<close> gives it a second socket on the
  same info object (the sockets 1 and 2 below), and a QR payload on the new socket takes
  the status from \<open>connected\<close> to \<open>qr_ready\<close>. And the handler itself takes the
  status from the update alone: an \<open>open\<close> on a socket that has reported a logout
  takes it from \<open>logged_out\<close> to \<open>connected\<close>.
\<close>

lemma table_needs_discipline:
  "getInfo ''s1'' (mrun m0 recreated_run) = Some 3
   \<and> status (heap (mrun m0 recreated_run) 3) = Connected
   \<and> map_option sock_info (socks (mrun m0 recreated_run) 1) = Some 3
   \<and> map_option sock_info (socks (mrun m0 recreated_run) 2) = Some 3
   \<and> status (heap (mstep (mrun m0 recreated_run) (Update 2 (upd_qr ''DEF''))) 3) = QrReady
   \<and> \<not> code_transition Connected QrReady
   \<and> \<not> disciplined ''s1'' m0 (\<lambda>k. Unopened) (recreated_run @ [Update 2 (upd_qr ''DEF'')])
   \<and> status (heap (mrun m0 logged_out_run) 1) = LoggedOut
   \<and> status (heap (mstep (mrun m0 logged_out_run) (Update 0 upd_open)) 1) = Connected
   \<and> \<not> disciplined ''s1'' m0 (\<lambda>k. Unopened) (logged_out_run @ [Update 0 upd_open])"
proof -
  have a: "getInfo ''s1'' (mrun m0 recreated_run) = Some 3
     \<and> status (heap (mrun m0 recreated_run) 3) = Connected
     \<and> map_option sock_info (socks (mrun m0 recreated_run) 1) = Some 3
     \<and> map_option sock_info (socks (mrun m0 recreated_run) 2) = Some 3
     \<and> status (heap (mstep (mrun m0 recreated_run) (Update 2 (upd_qr ''DEF''))) 3) = QrReady"
    unfolding run_recreated by (simp add: sdefs stdefs)
  have b: "\<not> disciplined ''s1'' m0 (\<lambda>k. Unopened) (recreated_run @ [Update 2 (upd_qr ''DEF'')])"
    by (simp add: recreated_run_def timer_pending_def ddefs del: mstep.simps)
  have c: "status (heap (mrun m0 logged_out_run) 1) = LoggedOut
     \<and> status (heap (mstep (mrun m0 logged_out_run) (Update 0 upd_open)) 1) = Connected"
    unfolding run_logged_out by (simp add: sdefs stdefs)
  have d: "\<not> disciplined ''s1'' m0 (\<lambda>k. Unopened) (logged_out_run @ [Update 0 upd_open])"
    by (simp add: logged_out_run_def ddefs del: mstep.simps)
      (simp add: stdefs receivable_def next_phase_def upd_fields)
  show ?thesis using a b c d by simp
qed

text \<open>
  C5: when a socket of a registered session reports a close without the logout code,
  reconnects are enabled and the number of attempts so far plus one, \<open>attempt\<close>, is
  at most \<open>maxReconnectAttempts\<close>, then the counter is set to \<open>attempt\<close> and a
  timer that runs \<open>_boot\<close> is scheduled with the delay
  \<open>reconnectDelayMs * backoffMultiplier ^ (attempt - 1)\<close>, the multiplier being the
  literal 1.5. An update that reports \<open>open\<close> on a socket sets the counter of
  the socket's session to 0, in every state and whatever the counter was, so also after
  the last attempt that is allowed.
\<close>

theorem reconnect_delay_backoff:
  assumes "socks s k = Some x" and "hasSession (sock_session x) s" and "autoReconnect (sm_config s)"
    and "connection u = Some conn_close" and "\<not> is_loggedOut u"
    and "attempt = (case reconnectAttempts s (sock_session x) of None \<Rightarrow> 0 | Some n \<Rightarrow> n) + 1"
    and "attempt \<le> maxReconnectAttempts (sm_config s)"
  shows "timers (connection_update k u s) = timers s @ [(nextTimer s,
           \<lparr> due = of_nat (clock s) + of_nat (reconnectDelayMs (sm_config s)) * backoffMultiplier ^ (attempt - 1),
             delay_ms = of_nat (reconnectDelayMs (sm_config s)) * backoffMultiplier ^ (attempt - 1),
             action = Reboot (sock_session x) \<rparr>)]
     \<and> reconnectAttempts (connection_update k u s) (sock_session x) = Some attempt
     \<and> (\<forall>s' k' x' u'. socks s' k' = Some x' \<and> connection u' = Some conn_open \<longrightarrow>
           reconnectAttempts (connection_update k' u' s') (sock_session x') = Some 0)"
proof -
  let ?i = "sock_session x" and ?r = "sock_info x"
  define s1 where "s1 = (case qr_payload u of
                       Some q \<Rightarrow> if q \<noteq> [] then on_qr ?i ?r q s else s
                     | None \<Rightarrow> s)"
  have cu: "connection_update k u s = on_close ?i ?r u s1"
    using assms(1,4) by (simp add: connection_update_def s1_def Let_def)
  have f: "reconnectAttempts s1 = reconnectAttempts s" "sm_config s1 = sm_config s"
    "clock s1 = clock s" "nextTimer s1 = nextTimer s" "hasSession ?i s1 = hasSession ?i s"
    "timers s1 = timers s"
    by (simp_all add: s1_def on_qr_timers split: option.splits)
  have close: "timers (on_close ?i ?r u s1) = timers s @ [(nextTimer s,
           \<lparr> due = of_nat (clock s) + of_nat (reconnectDelayMs (sm_config s)) * backoffMultiplier ^ (attempt - 1),
             delay_ms = of_nat (reconnectDelayMs (sm_config s)) * backoffMultiplier ^ (attempt - 1),
             action = Reboot ?i \<rparr>)]
     \<and> reconnectAttempts (on_close ?i ?r u s1) ?i = Some attempt"
    using on_close_schedules [of u s1 ?i attempt ?r] assms(2,3,5,6,7) f by simp
  have "reconnectAttempts (connection_update k' u' s') (sock_session x') = Some 0"
    if "socks s' k' = Some x'" and "connection u' = Some conn_open" for s' k' x' u'
    using that by (simp add: connection_update_def Let_def on_open_def)
  then show ?thesis using close cu by simp
qed

theorem reconnect_delay_backoff_witness:
  "socks st_rebooted 1 = Some sock_of_s1 \<and> hasSession (sock_session sock_of_s1) st_rebooted
   \<and> autoReconnect (sm_config st_rebooted)
   \<and> connection (upd_close ''Stream Errored'') = Some conn_close
   \<and> \<not> is_loggedOut (upd_close ''Stream Errored'')
   \<and> reconnectAttempts st_rebooted ''s1'' = Some 1
   \<and> (2::nat) \<le> maxReconnectAttempts (sm_config st_rebooted)
   \<and> timers (connection_update 1 (upd_close ''Stream Errored'') st_rebooted) =
        [(1, \<lparr> due = 8500, delay_ms = 4500, action = Reboot ''s1'' \<rparr>)]
   \<and> reconnectAttempts (connection_update 1 (upd_close ''Stream Errored'') st_rebooted) ''s1'' = Some 2
   \<and> map (\<lambda>k. of_nat (reconnectDelayMs (sm_config st_rebooted)) * backoffMultiplier ^ (k - 1))
        [1, 2, 3, 4] = [3000, 4500, 6750, 10125]
   \<and> maxReconnectAttempts (sm_config st_exhausted) = 5
   \<and> reconnectAttempts st_exhausted ''s1'' = Some 5
   \<and> socks st_exhausted 1 = Some sock_of_s1
   \<and> connection upd_open = Some conn_open
   \<and> reconnectAttempts (connection_update 1 upd_open st_exhausted) ''s1'' = Some 0"
proof -
  have h: "socks st_rebooted 1 = Some sock_of_s1" "hasSession (sock_session sock_of_s1) st_rebooted"
    "autoReconnect (sm_config st_rebooted)"
    "connection (upd_close ''Stream Errored'') = Some conn_close"
    "\<not> is_loggedOut (upd_close ''Stream Errored'')"
    by (simp_all add: stdefs hasSession_def default_manager_config_def upd_close_def is_loggedOut_def)
  have a: "2 = (case reconnectAttempts st_rebooted (sock_session sock_of_s1) of None \<Rightarrow> 0 | Some n \<Rightarrow> n) + 1"
    "2 \<le> maxReconnectAttempts (sm_config st_rebooted)"
    by (simp_all add: stdefs default_manager_config_def)
  have v: "reconnectAttempts st_rebooted ''s1'' = Some 1" "clock st_rebooted = 4000"
    "nextTimer st_rebooted = 1" "timers st_rebooted = []"
    "reconnectDelayMs (sm_config st_rebooted) = 3000" "sock_session sock_of_s1 = ''s1''"
    by (simp_all add: stdefs default_manager_config_def)
  have e: "maxReconnectAttempts (sm_config st_exhausted) = 5"
    "reconnectAttempts st_exhausted ''s1'' = Some 5"
    "socks st_exhausted 1 = Some sock_of_s1" "connection upd_open = Some conn_open"
    by (simp_all add: st_exhausted_def stdefs default_manager_config_def upd_open_def)
  have "reconnectAttempts (connection_update 1 upd_open st_exhausted) (sock_session sock_of_s1) = Some 0"
    using reconnect_delay_backoff [OF h a] e(3,4) by blast
  then have o: "reconnectAttempts (connection_update 1 upd_open st_exhausted) ''s1'' = Some 0"
    by (simp add: v)
  show ?thesis
    using reconnect_delay_backoff [OF h a] h a(2) e o
    by (simp add: v backoffMultiplier_def power_divide)
qed

text \<open>
  C6 fails on the code for a session that is already logged out when
  \<open>waitForConnected\<close> is called: only the status \<open>connected\<close> is looked at before
  the listeners are registered, so the call waits and is rejected by its timer with the
  timeout error, not with the logged-out error.
\<close>

theorem wait_on_logged_out_times_out:
  "getInfo ''s1'' (mrun m0 logged_out_run) = Some 1
   \<and> status (heap (mrun m0 logged_out_run) 1) = LoggedOut
   \<and> map w_settled (waiters (mrun m0 waiting_run)) = [None]
   \<and> pending_actions (mrun m0 waiting_run) = [WaitTimeout 0]
   \<and> map w_settled (waiters (mrun m0 waited_run)) =
        [Some (RejectedWith (DidNotConnect ''s1'' 1000))]"
  unfolding run_logged_out run_waiting run_waited
  by (simp add: sdefs stdefs)

text \<open>
  The other paths of \<open>waitForConnected\<close>, on a session that is \<open>initializing\<close>:
  the open, the logout and the timeout each settle the promise, remove both listeners
  and leave no timer.
\<close>

lemma wait_paths_release:
  "waiters (mstep (mstep st_created (WaitForConnected ''s1'' 1000)) (Update 0 upd_open)) =
     [\<lparr> w_session = ''s1'', w_timeoutMs = 1000, onConnected = False, onStatus = False,
        w_timer = None, w_settled = Some (ResolvedWith (Some 1)) \<rparr>]"
  "timers (mstep (mstep st_created (WaitForConnected ''s1'' 1000)) (Update 0 upd_open)) = []"
  "waiters (mstep (mstep st_created (WaitForConnected ''s1'' 1000)) (Update 0 upd_logout)) =
     [\<lparr> w_session = ''s1'', w_timeoutMs = 1000, onConnected = False, onStatus = False,
        w_timer = None, w_settled = Some (RejectedWith (WasLoggedOut ''s1'')) \<rparr>]"
  "timers (mstep (mstep st_created (WaitForConnected ''s1'' 1000)) (Update 0 upd_logout)) = []"
  "waiters (mstep (mstep (mstep st_created (WaitForConnected ''s1'' 1000)) (Tick 1000)) (Fire 0)) =
     [\<lparr> w_session = ''s1'', w_timeoutMs = 1000, onConnected = False, onStatus = False,
        w_timer = None, w_settled = Some (RejectedWith (DidNotConnect ''s1'' 1000)) \<rparr>]"
  "timers (mstep (mstep (mstep st_created (WaitForConnected ''s1'' 1000)) (Tick 1000)) (Fire 0)) = []"
  by (simp_all add: sdefs stdefs)

end
